theory Spec2Isabelle
  imports Main "HOL-Library.Word"
begin

section \<open>Data model of \<open>Spreadsheet.tsx\<close>\<close>

text \<open>
  The component turns an array of records into the flat cell list of a grid renderer.
  JavaScript values are modelled as far as the code looks at them:
  \<^item> a value stored in a row is a scalar (\<open>jsval\<close>); a number that the code prints
    is a signed 54-bit integer (\<open>number\<close>, from \<open>-2^53\<close> to \<open>2^53 - 1\<close>): each of
    them is a JavaScript number, and \<open>String\<close> prints its decimal digits; fractions,
    \<open>NaN\<close>, larger numbers and nested objects are outside the model;
  \<^item> reading \<open>item[key]\<close> follows the prototype chain: a row is a plain object, so
    a key it lacks is still found when it names a member of \<open>Object.prototype\<close>
    (\<open>JInherited\<close>);
  \<^item> a row (a JavaScript object) is an association list with its keys in the order
    \<open>Object.keys\<close> enumerates them; a JavaScript object has no duplicate key, which
    theorems state as \<open>distinct\<close> where they depend on it;
  \<^item> \<open>undefined\<close> or an absent optional field is \<open>None\<close>;
  \<^item> every number of the cell model that is only stored or added (indices, spans,
    sticky counts) is an \<open>int\<close>;
  \<^item> an array is a list; a JavaScript array has fewer than \<open>2^32\<close> elements, so a row
    ordinal fits the 54 bits.
\<close>

type_synonym number = "54 word"

datatype jsval =
    JUndefined
  | JNull
  | JBool bool
  | JNum number
  | JStr string
  | JInherited string

type_synonym row = "(string \<times> jsval) list"

text \<open>The calls the row-store of \<open>useFieldArray\<close> offers (line 234).\<close>

datatype store_call = Append row | Remove nat | Update nat row

text \<open>The two rendering templates of the grid library that the code uses.\<close>

datatype template = TextCell | NonEditableCell

text \<open>
  A value of a cell's \<open>props\<close> object (\<open>Record<string, any>\<close>): text, flag, number, a
  style object, or a callback. A callback is represented by the row-store calls it
  issues when the renderer invokes it with the new text of the cell.
\<close>

datatype pval =
    PStr string
  | PBool bool
  | PNum int
  | PStyle "(string \<times> string) list"
  | PHandler "string \<Rightarrow> store_call list"

type_synonym props = "(string \<times> pval) list"

record cell =
  rowIndex :: int
  colIndex :: int
  Template :: template
  props :: props
  rowSpan :: "int option"
  colSpan :: "int option"
  isFocusable :: "bool option"
  isSelectable :: "bool option"

text \<open>Interface \<open>CustomCell\<close> (lines 9-13): every field is optional.\<close>

record customCell =
  c_title :: "string option"
  c_template :: "template option"
  c_props :: "props option"
  c_rowSpan :: "int option"
  c_colSpan :: "int option"
  c_isFocusable :: "bool option"
  c_isSelectable :: "bool option"

text \<open>
  What a header policy can hand back at run time. The declared type is
  \<open>string | null | CustomCell\<close>; \<open>undefined\<close>, numbers and booleans are the values
  of other shapes that a JavaScript caller can still return.
\<close>

datatype policy_result =
    RNull
  | RUndefined
  | RString string
  | RNumber int
  | RBool bool
  | RObject customCell

type_synonym policy = "string \<Rightarrow> int \<Rightarrow> int \<Rightarrow> policy_result"

text \<open>One invocation of the header policy: its three arguments.\<close>

type_synonym call = "string \<times> int \<times> int"

datatype error = TypeError

text \<open>Interface \<open>HeaderInfo\<close> (lines 15-21); \<open>h_customCell\<close> is \<open>RNull\<close> for \<open>null\<close>.\<close>

record headerInfo =
  h_key :: string
  h_cell :: "cell option"
  h_title :: string
  h_customCell :: policy_result
  h_colSpan :: "int option"

definition DISABLED_COLOR :: string where
  "DISABLED_COLOR = ''#EEEEEE''"

section \<open>JavaScript primitives the code relies on\<close>

definition digit_char :: "nat \<Rightarrow> char" where
  "digit_char d = ''0123456789'' ! d"

function digits_of :: "nat \<Rightarrow> string" where
  "digits_of n = (if n < 10 then [digit_char n] else digits_of (n div 10) @ [digit_char (n mod 10)])"
  by pat_completeness auto
termination
  by (relation "measure id") auto

declare digits_of.simps [simp del]

text \<open>
  \<open>String(n)\<close> for a number of the model: the decimal digits of its signed value,
  which is below \<open>10^21\<close> in magnitude, where JavaScript changes to the exponent form.
\<close>

definition string_of_number :: "number \<Rightarrow> string" where
  "string_of_number n =
     (if sint n < 0 then CHR ''-'' # digits_of (nat (- sint n)) else digits_of (nat (sint n)))"

text \<open>
  The members every plain object inherits from \<open>Object.prototype\<close>, and what \<open>String\<close>
  makes of one: the built-in functions print as native code under their name (the
  constructor is \<open>Object\<close>), in the layout of V8; \<open>__proto__\<close> yields the
  prototype object itself.
\<close>

definition object_prototype_names :: "string list" where
  "object_prototype_names =
     [''constructor'', ''hasOwnProperty'', ''isPrototypeOf'', ''propertyIsEnumerable'',
      ''toLocaleString'', ''toString'', ''valueOf'', ''__defineGetter__'', ''__defineSetter__'',
      ''__lookupGetter__'', ''__lookupSetter__'', ''__proto__'']"

definition string_of_inherited :: "string \<Rightarrow> string" where
  "string_of_inherited k =
     (if k = ''__proto__'' then ''[object Object]''
      else ''function '' @ (if k = ''constructor'' then ''Object'' else k) @ ''() { [native code] }'')"

text \<open>Truthiness of a row value, as \<open>||\<close> tests it.\<close>

fun truthy :: "jsval \<Rightarrow> bool" where
  "truthy JUndefined = False"
| "truthy JNull = False"
| "truthy (JBool b) = b"
| "truthy (JNum n) = (n \<noteq> 0)"
| "truthy (JStr s) = (s \<noteq> [])"
| "truthy (JInherited k) = True"

text \<open>\<open>String(v)\<close>.\<close>

fun String :: "jsval \<Rightarrow> string" where
  "String JUndefined = ''undefined''"
| "String JNull = ''null''"
| "String (JBool b) = (if b then ''true'' else ''false'')"
| "String (JNum n) = string_of_number n"
| "String (JStr s) = s"
| "String (JInherited k) = string_of_inherited k"

text \<open>\<open>value || ''\<close>.\<close>

definition or_empty :: "jsval \<Rightarrow> jsval" where
  "or_empty v = (if truthy v then v else JStr [])"

text \<open>
  \<open>item[key]\<close> (line 294): the value stored under the key; when the row has no such key,
  the member of \<open>Object.prototype\<close> of that name; \<open>undefined\<close> when there is neither.
\<close>

definition get_field :: "row \<Rightarrow> string \<Rightarrow> jsval" where
  "get_field item k =
     (case map_of item k of
        Some v \<Rightarrow> v
      | None \<Rightarrow> if k \<in> set object_prototype_names then JInherited k else JUndefined)"

text \<open>
  Object spread \<open>{...a, ...b}\<close>: the entries of \<open>b\<close> are written over \<open>a\<close> one by one, a
  key already there keeps its place and takes the new value, a new key goes to the end.
  Spreading \<open>undefined\<close> adds nothing.
\<close>

fun assign :: "string \<times> pval \<Rightarrow> props \<Rightarrow> props" where
  "assign (k, v) [] = [(k, v)]"
| "assign (k, v) ((k', v') # ps) = (if k = k' then (k, v) # ps else (k', v') # assign (k, v) ps)"

definition spread :: "props \<Rightarrow> props option \<Rightarrow> props" where
  "spread a b = (case b of None \<Rightarrow> a | Some bs \<Rightarrow> fold assign bs a)"

text \<open>Truthiness of a policy result, and the reading of a field of it.\<close>

fun truthy_result :: "policy_result \<Rightarrow> bool" where
  "truthy_result RNull = False"
| "truthy_result RUndefined = False"
| "truthy_result (RString s) = (s \<noteq> [])"
| "truthy_result (RNumber n) = (n \<noteq> 0)"
| "truthy_result (RBool b) = b"
| "truthy_result (RObject c) = True"

definition no_fields :: customCell where
  "no_fields = \<lparr>c_title = None, c_template = None, c_props = None, c_rowSpan = None,
     c_colSpan = None, c_isFocusable = None, c_isSelectable = None\<rparr>"

text \<open>
  \<open>result.f\<close> for the fields of \<open>CustomCell\<close>: an object gives what it holds; a string,
  number or boolean has none of these fields and gives \<open>undefined\<close> for each. Reading a
  field of \<open>null\<close> or \<open>undefined\<close> throws; the callers below test for both before they read.
\<close>

fun fields_of :: "policy_result \<Rightarrow> customCell" where
  "fields_of (RObject c) = c"
| "fields_of _ = no_fields"

text \<open>\<open>t || String(key)\<close> for an optional title: the empty string is falsy.\<close>

definition title_or :: "string option \<Rightarrow> string \<Rightarrow> string" where
  "title_or t k = (case t of None \<Rightarrow> k | Some s \<Rightarrow> if s = [] then k else s)"

text \<open>\<open>n || 1\<close> for an optional number: \<open>undefined\<close> and \<open>0\<close> are falsy.\<close>

definition span_or_1 :: "int option \<Rightarrow> int" where
  "span_or_1 n = (case n of None \<Rightarrow> 1 | Some s \<Rightarrow> if s = 0 then 1 else s)"

section \<open>Cell factories (lines 78-122)\<close>

definition createTextCell :: "string \<Rightarrow> bool \<Rightarrow> cell" where
  "createTextCell text nonEditable =
     \<lparr>rowIndex = 0, colIndex = 0, Template = TextCell,
      props = [(''text'', PStr text), (''nonEditable'', PBool nonEditable)],
      rowSpan = None, colSpan = None, isFocusable = None, isSelectable = None\<rparr>"

definition header_props :: "string \<Rightarrow> props" where
  "header_props v =
     [(''value'', PStr v), (''nonEditable'', PBool True),
      (''style'', PStyle [(''backgroundColor'', DISABLED_COLOR)])]"

definition createHeaderCell :: "string \<Rightarrow> cell" where
  "createHeaderCell v =
     \<lparr>rowIndex = 0, colIndex = 0, Template = NonEditableCell, props = header_props v,
      rowSpan = None, colSpan = None, isFocusable = None, isSelectable = None\<rparr>"

definition createRowNumberCell :: "number \<Rightarrow> cell" where
  "createRowNumberCell v =
     \<lparr>rowIndex = 0, colIndex = 0, Template = NonEditableCell,
      props = header_props (string_of_number v),
      rowSpan = None, colSpan = None, isFocusable = None, isSelectable = None\<rparr>"

section \<open>Key discovery and header resolution (lines 125-176)\<close>

definition getObjectKeys :: "row \<Rightarrow> string list" where
  "getObjectKeys obj = filter (\<lambda>k. k \<noteq> ''id'') (map fst obj)"

text \<open>
  \<open>processHeaderInfo\<close> returns the policy invocations it made together with its result:
  \<open>Inl TypeError\<close> when a field of \<open>undefined\<close> is read (line 157), \<open>Inr None\<close> for
  \<open>null\<close>, \<open>Inr (Some info)\<close> otherwise.
\<close>

definition processHeaderInfo ::
  "string \<Rightarrow> nat \<Rightarrow> policy option \<Rightarrow> call list \<times> (error + headerInfo option)" where
  "processHeaderInfo key colIdx columnHeaderTitle =
     (case columnHeaderTitle of
        None \<Rightarrow>
          ([], Inr (Some \<lparr>h_key = key, h_cell = Some (createHeaderCell key), h_title = key,
                          h_customCell = RNull, h_colSpan = None\<rparr>))
      | Some f \<Rightarrow>
          (let result = f key 0 (int colIdx + 1) in
           ([(key, 0, int colIdx + 1)],
            (case result of
               RNull \<Rightarrow> Inr None
             | RString s \<Rightarrow>
                 Inr (Some \<lparr>h_key = key, h_cell = Some (createHeaderCell s), h_title = s,
                            h_customCell = RNull, h_colSpan = None\<rparr>)
             | RUndefined \<Rightarrow> Inl TypeError
             | _ \<Rightarrow>
                 (let spec = fields_of result;
                      template = (case c_template spec of None \<Rightarrow> NonEditableCell | Some t \<Rightarrow> t);
                      cell = \<lparr>rowIndex = 0, colIndex = int colIdx + 1, Template = template,
                              props = (case c_props spec of
                                         None \<Rightarrow> header_props (title_or (c_title spec) key)
                                       | Some p \<Rightarrow> p),
                              rowSpan = c_rowSpan spec, colSpan = c_colSpan spec,
                              isFocusable = c_isFocusable spec,
                              isSelectable = c_isSelectable spec\<rparr>
                  in Inr (Some \<lparr>h_key = key, h_cell = Some cell,
                                h_title = title_or (c_title spec) key,
                                h_customCell = result, h_colSpan = c_colSpan spec\<rparr>))))))"

section \<open>Data cells (lines 178-212)\<close>

definition createDataCell :: "jsval \<Rightarrow> int \<Rightarrow> int \<Rightarrow> policy_result \<Rightarrow> cell" where
  "createDataCell v rowIdx colIdx customCell =
     (let baseCell = createTextCell (String (or_empty v)) False in
      if truthy_result customCell then
        (let spec = fields_of customCell;
             template = (case c_template spec of None \<Rightarrow> TextCell | Some t \<Rightarrow> t)
         in baseCell\<lparr>rowIndex := rowIdx, colIndex := colIdx, Template := template,
              props := spread (props baseCell) (c_props spec),
              rowSpan := c_rowSpan spec, colSpan := c_colSpan spec,
              isFocusable := c_isFocusable spec, isSelectable := c_isSelectable spec\<rparr>)
      else baseCell\<lparr>rowIndex := rowIdx, colIndex := colIdx\<rparr>)"

section \<open>Cell matrix assembly: \<open>getCells\<close> (lines 242-303)\<close>

text \<open>
  \<open>allKeys.map((key, colIdx) => processHeaderInfo(...))\<close>: the keys are visited in order
  with their position; an exception ends the pass, and the invocations made so far stay
  made.
\<close>

fun map_keys ::
  "(string \<Rightarrow> nat \<Rightarrow> call list \<times> (error + 'a)) \<Rightarrow> nat \<Rightarrow> string list \<Rightarrow> call list \<times> (error + 'a list)" where
  "map_keys f colIdx [] = ([], Inr [])"
| "map_keys f colIdx (k # ks) =
     (case f k colIdx of
        (cs, Inl e) \<Rightarrow> (cs, Inl e)
      | (cs, Inr r) \<Rightarrow>
          (case map_keys f (Suc colIdx) ks of
             (cs', Inl e) \<Rightarrow> (cs @ cs', Inl e)
           | (cs', Inr rs) \<Rightarrow> (cs @ cs', Inr (r # rs))))"

text \<open>\<open>.filter(info => info !== null)\<close>.\<close>

primrec filter_null :: "'a option list \<Rightarrow> 'a list" where
  "filter_null [] = []"
| "filter_null (x # xs) = (case x of None \<Rightarrow> filter_null xs | Some i \<Rightarrow> i # filter_null xs)"

definition rowNumberHeaderCell :: cell where
  "rowNumberHeaderCell = (createHeaderCell ''#'')\<lparr>rowIndex := 0, colIndex := 0\<rparr>"

definition rowNumberCells :: "row list \<Rightarrow> cell list" where
  "rowNumberCells data =
     map (\<lambda>idx. (createRowNumberCell (of_nat idx + 1))\<lparr>rowIndex := int idx + 1, colIndex := 0\<rparr>)
       [0..<length data]"

text \<open>
  The \<open>forEach\<close> of lines 273-287 with its three variables as the state:
  \<open>currentColIndex\<close>, \<open>headerCells\<close> and \<open>columnPositions\<close>.
\<close>

record loop_state =
  currentColIndex :: int
  headerCells :: "cell list"
  columnPositions :: "string \<rightharpoonup> int"

text \<open>The object pushed onto \<open>headerCells\<close> (lines 278-283).\<close>

definition header_cell :: "headerInfo \<Rightarrow> int \<Rightarrow> cell" where
  "header_cell info col =
     (case h_cell info of None \<Rightarrow> createHeaderCell (h_key info) | Some c \<Rightarrow> c)
       \<lparr>rowIndex := 0, colIndex := col,
        Template := (case h_cell info of None \<Rightarrow> NonEditableCell | Some c \<Rightarrow> Template c)\<rparr>"

definition header_step :: "headerInfo \<Rightarrow> loop_state \<Rightarrow> loop_state" where
  "header_step info s =
     \<lparr>currentColIndex = currentColIndex s + span_or_1 (h_colSpan info),
      headerCells = headerCells s @ [header_cell info (currentColIndex s)],
      columnPositions = (columnPositions s)(h_key info \<mapsto> currentColIndex s)\<rparr>"

definition header_loop :: "headerInfo list \<Rightarrow> loop_state" where
  "header_loop headerInfo =
     fold header_step headerInfo
       \<lparr>currentColIndex = 1, headerCells = [], columnPositions = Map.empty\<rparr>"

text \<open>
  Lines 290-300. \<open>columnPositions.get(info.key)!\<close> is read with \<open>the\<close>: lemma
  \<open>header_loop_defined\<close> below shows that the key is always in the map.
\<close>

definition dataCells :: "row list \<Rightarrow> headerInfo list \<Rightarrow> (string \<rightharpoonup> int) \<Rightarrow> cell list" where
  "dataCells data headerInfo positions =
     concat (map (\<lambda>rowIdx.
        map (\<lambda>info. createDataCell (get_field (data ! rowIdx) (h_key info)) (int rowIdx + 1)
                      (the (positions (h_key info))) (h_customCell info))
          headerInfo)
       [0..<length data])"

definition resolve_headers :: "row list \<Rightarrow> policy option \<Rightarrow> call list \<times> (error + headerInfo list)" where
  "resolve_headers data columnHeaderTitle =
     (let firstItem = hd data;
          allKeys = getObjectKeys firstItem
      in case map_keys (\<lambda>key colIdx. processHeaderInfo key colIdx columnHeaderTitle) 0 allKeys of
           (cs, Inl e) \<Rightarrow> (cs, Inl e)
         | (cs, Inr infos) \<Rightarrow> (cs, Inr (filter_null infos)))"

definition assemble :: "row list \<Rightarrow> headerInfo list \<Rightarrow> cell list" where
  "assemble data headerInfo =
     (let s = header_loop headerInfo
      in rowNumberHeaderCell # rowNumberCells data @ headerCells s
           @ dataCells data headerInfo (columnPositions s))"

definition getCells :: "row list \<Rightarrow> policy option \<Rightarrow> call list \<times> (error + cell list)" where
  "getCells data columnHeaderTitle =
     (if data = [] then ([], Inr [])
      else case resolve_headers data columnHeaderTitle of
             (cs, Inl e) \<Rightarrow> (cs, Inl e)
           | (cs, Inr headerInfo) \<Rightarrow> (cs, Inr (assemble data headerInfo)))"

section \<open>The component (lines 214-321)\<close>

text \<open>
  The props of \<open>Spreadsheet\<close>. The row-store (\<open>useForm\<close>, \<open>useFieldArray\<close>) is a
  library outside this code: the live row sequence it returns (\<open>fields\<close> in the
  source, \<open>storeFields\<close> here) is a parameter of the model. The prop \<open>data\<close> only
  seeds a store of the component's own and is not read again; \<open>form\<close> and
  \<open>fieldArrayName\<close>, which only select the store, are left out.
\<close>

record spreadsheetProps =
  p_data :: "row list"
  p_columnHeaderTitle :: "policy option"
  p_height :: "string option"
  p_width :: "string option"
  p_stickyTopRows :: "int option"
  p_stickyBottomRows :: "int option"
  p_stickyLeftColumns :: "int option"
  p_stickyRightColumns :: "int option"

text \<open>The attributes the \<open>ReactGrid\<close> element is given (lines 311-317): these five.\<close>

record reactGrid =
  cells :: "cell list"
  stickyTopRows :: int
  stickyBottomRows :: int
  stickyLeftColumns :: int
  stickyRightColumns :: int

text \<open>The rendered element: the styled container and the grid inside it.\<close>

record rendered =
  height :: string
  width :: string
  grid :: reactGrid

definition Spreadsheet :: "spreadsheetProps \<Rightarrow> row list \<Rightarrow> call list \<times> (error + rendered)" where
  "Spreadsheet p storeFields =
     (let data = storeFields in
      case getCells data (p_columnHeaderTitle p) of
        (cs, Inl e) \<Rightarrow> (cs, Inl e)
      | (cs, Inr memoizedCells) \<Rightarrow>
          (cs, Inr \<lparr>height = (case p_height p of None \<Rightarrow> ''400px'' | Some h \<Rightarrow> h),
                    width = (case p_width p of None \<Rightarrow> ''100%'' | Some w \<Rightarrow> w),
                    grid = \<lparr>cells = memoizedCells,
                            stickyTopRows = (case p_stickyTopRows p of None \<Rightarrow> 1 | Some n \<Rightarrow> n),
                            stickyBottomRows = (case p_stickyBottomRows p of None \<Rightarrow> 0 | Some n \<Rightarrow> n),
                            stickyLeftColumns = (case p_stickyLeftColumns p of None \<Rightarrow> 1 | Some n \<Rightarrow> n),
                            stickyRightColumns = (case p_stickyRightColumns p of None \<Rightarrow> 0 | Some n \<Rightarrow> n)\<rparr>\<rparr>))"

subsection \<open>The renderer's side of an edit\<close>

text \<open>
  The grid renderer is a library outside this code. Whatever it does when the user
  changes a cell, it can only invoke function values it was handed. The \<open>ReactGrid\<close>
  element is handed no function (record \<open>reactGrid\<close>), so the callbacks within reach of
  an edit of the cell at a coordinate are the function-valued props of the cells at
  that coordinate. \<open>edit_calls\<close> collects the row-store calls they issue.
\<close>

definition cell_handlers :: "cell \<Rightarrow> (string \<Rightarrow> store_call list) list" where
  "cell_handlers c = concat (map (\<lambda>(k, v). case v of PHandler h \<Rightarrow> [h] | _ \<Rightarrow> []) (props c))"

definition edit_calls :: "rendered \<Rightarrow> int \<Rightarrow> int \<Rightarrow> string \<Rightarrow> store_call list" where
  "edit_calls r row col text =
     concat (map (\<lambda>h. h text)
       (concat (map cell_handlers
          (filter (\<lambda>c. rowIndex c = row \<and> colIndex c = col) (cells (grid r))))))"

definition handler_free :: "props \<Rightarrow> bool" where
  "handler_free ps = list_all (\<lambda>(k, v). case v of PHandler h \<Rightarrow> False | _ \<Rightarrow> True) ps"

section \<open>Notions used to state the properties\<close>

text \<open>
  The values the header policy returns during one pass: one per discovered key, for
  the arguments \<open>(key, 0, colIdx + 1)\<close> of line 144. There is none when no policy is
  supplied or the row sequence is empty.
\<close>

fun results_from :: "policy \<Rightarrow> nat \<Rightarrow> string list \<Rightarrow> policy_result list" where
  "results_from f colIdx [] = []"
| "results_from f colIdx (k # ks) = f k 0 (int colIdx + 1) # results_from f (Suc colIdx) ks"

definition policy_results :: "policy option \<Rightarrow> row list \<Rightarrow> policy_result list" where
  "policy_results columnHeaderTitle data =
     (case columnHeaderTitle of
        None \<Rightarrow> []
      | Some f \<Rightarrow> if data = [] then [] else results_from f 0 (getObjectKeys (hd data)))"

text \<open>
  What one pass produces when it ends normally: the header information that is left
  after the filter of line 252, and the cell list. (Both are \<open>[]\<close> for a pass that
  throws; the theorems below show when the pass ends normally.)
\<close>

definition headerInfo_of :: "row list \<Rightarrow> policy option \<Rightarrow> headerInfo list" where
  "headerInfo_of data columnHeaderTitle =
     (case snd (resolve_headers data columnHeaderTitle) of Inl e \<Rightarrow> [] | Inr infos \<Rightarrow> infos)"

definition cells_of :: "row list \<Rightarrow> policy option \<Rightarrow> cell list" where
  "cells_of data columnHeaderTitle =
     (case snd (getCells data columnHeaderTitle) of Inl e \<Rightarrow> [] | Inr cs \<Rightarrow> cs)"

text \<open>
  The computed defaults of a data cell, stated in words: the text is the row's value at
  the field name, stringified, and the empty string if that value is falsy; for a key
  the row lacks it is the empty string, unless the key names a member inherited from
  \<open>Object.prototype\<close>, which is then what is stringified. The cell is editable.
\<close>

definition spec_text :: "row \<Rightarrow> string \<Rightarrow> string" where
  "spec_text item k =
     (case map_of item k of
        Some v \<Rightarrow> if truthy v then String v else []
      | None \<Rightarrow> if k \<in> set object_prototype_names then string_of_inherited k else [])"

definition spec_defaults :: "row \<Rightarrow> string \<Rightarrow> props" where
  "spec_defaults item k = [(''text'', PStr (spec_text item k)), (''nonEditable'', PBool False)]"

text \<open>
  The list positions of line 302: the corner cell is first, the row-number cells of the
  \<open>N\<close> rows follow, then the header cells of the \<open>K\<close> columns, then the data cells
  row by row.
\<close>

definition header_at :: "nat \<Rightarrow> nat \<Rightarrow> nat" where
  "header_at N n = 1 + N + n"

definition data_at :: "nat \<Rightarrow> nat \<Rightarrow> nat \<Rightarrow> nat \<Rightarrow> nat" where
  "data_at N K i n = 1 + N + K + i * K + n"

text \<open>The result of \<open>processHeaderInfo\<close> without its effects, for the proofs.\<close>

definition header_of :: "policy option \<Rightarrow> string \<Rightarrow> nat \<Rightarrow> headerInfo option" where
  "header_of pol k j = (case snd (processHeaderInfo k j pol) of Inl e \<Rightarrow> None | Inr r \<Rightarrow> r)"

fun headers_from :: "policy option \<Rightarrow> nat \<Rightarrow> string list \<Rightarrow> headerInfo option list" where
  "headers_from pol j [] = []"
| "headers_from pol j (k # ks) = header_of pol k j # headers_from pol (Suc j) ks"

fun calls_from :: "nat \<Rightarrow> string list \<Rightarrow> call list" where
  "calls_from j [] = []"
| "calls_from j (k # ks) = (k, 0, int j + 1) # calls_from (Suc j) ks"

definition calls_of :: "policy option \<Rightarrow> string list \<Rightarrow> call list" where
  "calls_of pol ks = (case pol of None \<Rightarrow> [] | Some f \<Rightarrow> calls_from 0 ks)"

text \<open>The column at which each header starts when the loop begins at column \<open>c\<close>.\<close>

fun starts :: "int \<Rightarrow> headerInfo list \<Rightarrow> int list" where
  "starts c [] = []"
| "starts c (i # is) = c # starts (c + span_or_1 (h_colSpan i)) is"

text \<open>A column whose header cell and custom props hold no callback.\<close>

definition info_free :: "headerInfo \<Rightarrow> bool" where
  "info_free info \<longleftrightarrow>
     (\<forall>col. handler_free (props (header_cell info col))) \<and>
     (\<forall>ps. c_props (fields_of (h_customCell info)) = Some ps \<longrightarrow> handler_free ps)"

section \<open>Example inputs\<close>

text \<open>Two rows as the row-store hands them over, each with its injected \<open>id\<close>.\<close>

definition sample_rows :: "row list" where
  "sample_rows =
     [[(''id'', JStr ''r1''), (''name'', JStr ''John''), (''city'', JStr ''Boston''), (''age'', JNum 28)],
      [(''id'', JStr ''r2''), (''name'', JStr ''Jane''), (''age'', JNum 0)]]"

text \<open>The header policy of \<open>App.tsx\<close> (lines 27-35).\<close>

definition app_policy :: policy where
  "app_policy col r c =
     (if col = ''name'' then RString ''Name''
      else if col = ''city'' then RObject (no_fields\<lparr>c_title := Some ''City'', c_colSpan := Some 2\<rparr>)
      else RString col)"


text \<open>The same policy with one column hidden.\<close>

definition hide :: "string \<Rightarrow> policy \<Rightarrow> policy" where
  "hide F f col r c = (if col = F then RNull else f col r c)"

text \<open>A policy that returns nothing (\<open>undefined\<close>) for one column.\<close>

definition omit :: "string \<Rightarrow> policy \<Rightarrow> policy" where
  "omit F f col r c = (if col = F then RUndefined else f col r c)"


text \<open>A policy whose spec for \<open>city\<close> carries props, spans and flags.\<close>

definition city_spec :: customCell where
  "city_spec = \<lparr>c_title = Some ''City'', c_template = Some NonEditableCell,
     c_props = Some [(''nonEditable'', PBool True), (''placeholder'', PStr ''?'')],
     c_rowSpan = Some 1, c_colSpan = Some 2, c_isFocusable = Some False,
     c_isSelectable = Some True\<rparr>"

definition styled_policy :: policy where
  "styled_policy col r c = (if col = ''city'' then RObject city_spec else RString col)"

text \<open>Policies that return values outside the declared type, and a negative span.\<close>

definition undefined_policy :: policy where
  "undefined_policy col r c = RUndefined"

definition number_policy :: policy where
  "number_policy col r c = RNumber 42"

definition negative_span_policy :: policy where
  "negative_span_policy col r c =
     (if col = ''name'' then RObject (no_fields\<lparr>c_colSpan := Some (- 1)\<rparr>) else RString col)"

definition no_options :: spreadsheetProps where
  "no_options = \<lparr>p_data = sample_rows, p_columnHeaderTitle = None, p_height = None,
     p_width = None, p_stickyTopRows = None, p_stickyBottomRows = None,
     p_stickyLeftColumns = None, p_stickyRightColumns = None\<rparr>"

section \<open>Lemmas about the model\<close>

lemma processHeaderInfo_None:
  "processHeaderInfo k j None = ([], Inr (header_of None k j))"
  by (simp add: processHeaderInfo_def header_of_def)

lemma processHeaderInfo_Some:
  "f k 0 (int j + 1) \<noteq> RUndefined \<Longrightarrow>
   processHeaderInfo k j (Some f) = ([(k, 0, int j + 1)], Inr (header_of (Some f) k j))"
  by (cases "f k 0 (int j + 1)") (simp_all add: processHeaderInfo_def header_of_def Let_def)

lemma map_keys_None:
  "map_keys (\<lambda>key colIdx. processHeaderInfo key colIdx None) j ks = ([], Inr (headers_from None j ks))"
  by (induction ks arbitrary: j) (simp_all add: processHeaderInfo_None)

lemma map_keys_Some:
  "RUndefined \<notin> set (results_from f j ks) \<Longrightarrow>
   map_keys (\<lambda>key colIdx. processHeaderInfo key colIdx (Some f)) j ks
     = (calls_from j ks, Inr (headers_from (Some f) j ks))"
  by (induction ks arbitrary: j) (simp_all add: processHeaderInfo_Some [OF not_sym])


lemma header_of_key: "header_of pol k j = Some info \<Longrightarrow> h_key info = k"
  by (auto simp: header_of_def processHeaderInfo_def Let_def split: option.splits policy_result.splits)

lemma resolve_headers_None:
  "resolve_headers data None = ([], Inr (filter_null (headers_from None 0 (getObjectKeys (hd data)))))"
  by (simp add: resolve_headers_def map_keys_None)

lemma resolve_headers_Some:
  "data \<noteq> [] \<Longrightarrow> RUndefined \<notin> set (policy_results (Some f) data) \<Longrightarrow>
   resolve_headers data (Some f) =
     (calls_from 0 (getObjectKeys (hd data)),
      Inr (filter_null (headers_from (Some f) 0 (getObjectKeys (hd data)))))"
  by (simp add: resolve_headers_def map_keys_Some policy_results_def)

lemma keys_filter_null_subset:
  "set (map h_key (filter_null (headers_from pol j ks))) \<subseteq> set ks"
  by (induction ks arbitrary: j) (auto simp: header_of_key split: option.splits)

lemma distinct_keys_filter_null:
  "distinct ks \<Longrightarrow> distinct (map h_key (filter_null (headers_from pol j ks)))"
proof (induction ks arbitrary: j)
  case Nil show ?case by simp
next
  case (Cons k ks)
  show ?case using Cons keys_filter_null_subset [of pol "Suc j" ks]
    by (auto simp: header_of_key split: option.splits)
qed

lemma length_starts [simp]: "length (starts c is) = length is"
  by (induction "is" arbitrary: c) simp_all

lemma starts_nth:
  "n < length is \<Longrightarrow> starts c is ! n = c + sum_list (map (\<lambda>i. span_or_1 (h_colSpan i)) (take n is))"
proof (induction "is" arbitrary: c n)
  case Nil then show ?case by simp
next
  case (Cons i "is") then show ?case by (cases n) simp_all
qed

lemma header_step_sel [simp]:
  "currentColIndex (header_step i s) = currentColIndex s + span_or_1 (h_colSpan i)"
  "headerCells (header_step i s) = headerCells s @ [header_cell i (currentColIndex s)]"
  "columnPositions (header_step i s) = (columnPositions s)(h_key i \<mapsto> currentColIndex s)"
  by (simp_all add: header_step_def)

lemma fold_header_step_cur:
  "currentColIndex (fold header_step is s) = currentColIndex s + sum_list (map (\<lambda>i. span_or_1 (h_colSpan i)) is)"
  by (induction "is" arbitrary: s) simp_all

lemma fold_header_step_cells:
  "headerCells (fold header_step is s) = headerCells s @ map2 header_cell is (starts (currentColIndex s) is)"
  by (induction "is" arbitrary: s) simp_all

lemma fold_header_step_other:
  "k \<notin> h_key ` set is \<Longrightarrow> columnPositions (fold header_step is s) k = columnPositions s k"
  by (induction "is" arbitrary: s) simp_all

lemma fold_header_step_pos:
  "distinct (map h_key is) \<Longrightarrow> n < length is \<Longrightarrow>
   columnPositions (fold header_step is s) (h_key (is ! n)) = Some (starts (currentColIndex s) is ! n)"
proof (induction "is" arbitrary: s n)
  case Nil then show ?case by simp
next
  case (Cons i "is")
  show ?case
  proof (cases n)
    case 0
    with Cons.prems show ?thesis
      by (simp add: fold_header_step_other)
  next
    case (Suc m)
    with Cons.prems have "columnPositions (fold header_step is (header_step i s)) (h_key (is ! m))
        = Some (starts (currentColIndex (header_step i s)) is ! m)"
      by (intro Cons.IH) simp_all
    with Suc show ?thesis by simp
  qed
qed

lemma header_loop_cells:
  "headerCells (header_loop is) = map2 header_cell is (starts 1 is)"
  by (simp add: header_loop_def fold_header_step_cells)

lemma header_loop_pos:
  "distinct (map h_key is) \<Longrightarrow> n < length is \<Longrightarrow>
   columnPositions (header_loop is) (h_key (is ! n)) = Some (starts 1 is ! n)"
  by (simp add: header_loop_def fold_header_step_pos)

lemma colIndex_header_cell [simp]: "colIndex (header_cell i c) = c"
  by (simp add: header_cell_def)

lemma header_loop_colIndex:
  "n < length is \<Longrightarrow> colIndex (headerCells (header_loop is) ! n) = starts 1 is ! n"
  by (simp add: header_loop_cells)

lemma fold_header_step_dom:
  "dom (columnPositions (fold header_step is s)) = dom (columnPositions s) \<union> h_key ` set is"
  by (induction "is" arbitrary: s) auto

lemma header_loop_defined:
  "info \<in> set is \<Longrightarrow> columnPositions (header_loop is) (h_key info) \<noteq> None"
  using fold_header_step_dom [of "is" "\<lparr>currentColIndex = 1, headerCells = [], columnPositions = Map.empty\<rparr>"]
  by (auto simp: header_loop_def dom_def)

lemma sorted_starts:
  "\<forall>i \<in> set is. 0 < span_or_1 (h_colSpan i) \<Longrightarrow> sorted_wrt (<) (starts c is)"
proof (induction "is" arbitrary: c)
  case Nil then show ?case by simp
next
  case (Cons i "is")
  have "\<forall>x \<in> set (starts d is). d \<le> x" if "\<forall>i \<in> set is. 0 < span_or_1 (h_colSpan i)" for d "is"
    using that
  proof (induction "is" arbitrary: d)
    case Nil then show ?case by simp
  next
    case (Cons a as)
    then show ?case by fastforce
  qed
  with Cons show ?case by fastforce
qed

lemma length_concat_upt:
  "(\<And>i. i < N \<Longrightarrow> length (f i) = K) \<Longrightarrow> length (concat (map f [0..<N])) = N * K"
  by (induction N) simp_all

lemma concat_upt_nth:
  "(\<And>i. i < N \<Longrightarrow> length (f i) = K) \<Longrightarrow> i < N \<Longrightarrow> n < K \<Longrightarrow>
   concat (map f [0..<N]) ! (i * K + n) = f i ! n"
proof (induction N)
  case 0 then show ?case by simp
next
  case (Suc N)
  have len: "length (concat (map f [0..<N])) = N * K"
    using Suc.prems(1) by (intro length_concat_upt) simp
  show ?case
  proof (cases "i < N")
    case True
    then have "i * K + n < N * K"
      using Suc.prems(3) by (metis Suc_leI add.commute mult_Suc mult_le_mono1 nat_add_left_cancel_less order_less_le_trans)
    with True Suc show ?thesis by (simp add: nth_append len)
  next
    case False
    with Suc.prems have "i = N" by simp
    then show ?thesis by (simp add: nth_append len)
  qed
qed

lemma resolve_headers_Inr:
  "data \<noteq> [] \<Longrightarrow> RUndefined \<notin> set (policy_results pol data) \<Longrightarrow>
   resolve_headers data pol =
     (calls_of pol (getObjectKeys (hd data)),
      Inr (filter_null (headers_from pol 0 (getObjectKeys (hd data)))))"
  by (cases pol) (simp_all add: resolve_headers_None resolve_headers_Some calls_of_def)

lemma getCells_Inr:
  "data \<noteq> [] \<Longrightarrow> RUndefined \<notin> set (policy_results pol data) \<Longrightarrow>
   getCells data pol =
     (calls_of pol (getObjectKeys (hd data)),
      Inr (assemble data (filter_null (headers_from pol 0 (getObjectKeys (hd data))))))"
  by (simp add: getCells_def resolve_headers_Inr)

lemma length_dataCells:
  "length (dataCells data infos pos) = length data * length infos"
  unfolding dataCells_def by (rule length_concat_upt) simp

lemma dataCells_nth:
  "i < length data \<Longrightarrow> n < length infos \<Longrightarrow>
   dataCells data infos pos ! (i * length infos + n) =
     createDataCell (get_field (data ! i) (h_key (infos ! n))) (int i + 1)
       (the (pos (h_key (infos ! n)))) (h_customCell (infos ! n))"
  unfolding dataCells_def by (subst concat_upt_nth) simp_all

lemma length_header_loop_cells: "length (headerCells (header_loop infos)) = length infos"
  by (simp add: header_loop_cells)

lemma length_rowNumberCells: "length (rowNumberCells data) = length data"
  by (simp add: rowNumberCells_def)

lemma length_assemble:
  "length (assemble data infos) = 1 + length data + length infos + length data * length infos"
  by (simp add: assemble_def Let_def length_dataCells length_header_loop_cells length_rowNumberCells)

lemma assemble_nth_data:
  "i < length data \<Longrightarrow> n < length infos \<Longrightarrow>
   assemble data infos ! (1 + length data + length infos + i * length infos + n) =
     createDataCell (get_field (data ! i) (h_key (infos ! n))) (int i + 1)
       (the (columnPositions (header_loop infos) (h_key (infos ! n)))) (h_customCell (infos ! n))"
proof -
  assume a: "i < length data" "n < length infos"
  have "assemble data infos ! (1 + length data + length infos + i * length infos + n)
      = dataCells data infos (columnPositions (header_loop infos)) ! (i * length infos + n)"
    by (simp add: assemble_def Let_def nth_append length_header_loop_cells length_rowNumberCells)
  then show ?thesis using a by (simp add: dataCells_nth)
qed

lemma assemble_nth_header:
  "n < length infos \<Longrightarrow>
   assemble data infos ! (1 + length data + n) = headerCells (header_loop infos) ! n"
  by (simp add: assemble_def Let_def nth_append length_header_loop_cells length_rowNumberCells)

lemma map_of_assign: "map_of (assign (k, v) ps) = (map_of ps)(k \<mapsto> v)"
  by (induction ps) auto

lemma map_of_fold_assign:
  "distinct (map fst bs) \<Longrightarrow>
   map_of (fold assign bs a) k = (case map_of bs k of Some v \<Rightarrow> Some v | None \<Rightarrow> map_of a k)"
proof (induction bs arbitrary: a)
  case Nil then show ?case by simp
next
  case (Cons b bs)
  obtain k' v' where b: "b = (k', v')" by (cases b)
  have notin: "map_of bs k' = None" using Cons.prems b by (simp add: map_of_eq_None_iff)
  show ?case using Cons b notin by (auto simp: map_of_assign split: option.splits)
qed

lemma header_of_None_iff:
  "header_of (Some f) k j = None \<longleftrightarrow> f k 0 (int j + 1) \<in> {RNull, RUndefined}"
  by (cases "f k 0 (int j + 1)") (simp_all add: header_of_def processHeaderInfo_def Let_def)

lemma header_of_no_policy: "header_of None k j \<noteq> None"
  by (simp add: header_of_def processHeaderInfo_def)

lemma length_filter_null_all:
  "data \<noteq> [] \<Longrightarrow> set (policy_results pol data) \<inter> {RNull, RUndefined} = {} \<Longrightarrow>
   length (filter_null (headers_from pol 0 (getObjectKeys (hd data)))) = length (getObjectKeys (hd data))"
proof (cases pol)
  case None
  have "length (filter_null (headers_from None j ks)) = length ks" for j ks
    by (induction ks arbitrary: j) (auto simp: header_of_no_policy split: option.splits)
  with None show ?thesis by simp
next
  case (Some f)
  have "set (results_from f j ks) \<inter> {RNull, RUndefined} = {} \<Longrightarrow>
        length (filter_null (headers_from (Some f) j ks)) = length ks" for j ks
    by (induction ks arbitrary: j) (auto simp: header_of_None_iff split: option.splits)
  then show "data \<noteq> [] \<Longrightarrow> set (policy_results pol data) \<inter> {RNull, RUndefined} = {} \<Longrightarrow> ?thesis"
    using Some by (simp add: policy_results_def)
qed

lemma distinct_getObjectKeys: "distinct (map fst obj) \<Longrightarrow> distinct (getObjectKeys obj)"
  by (simp add: getObjectKeys_def)

lemma createDataCell_index [simp]:
  "rowIndex (createDataCell v r c cc) = r" "colIndex (createDataCell v r c cc) = c"
  by (simp_all add: createDataCell_def Let_def createTextCell_def)

lemma default_text: "String (or_empty (get_field item k)) = spec_text item k"
  by (simp add: or_empty_def get_field_def spec_text_def split: option.splits)

lemma createDataCell_null:
  "createDataCell v r c RNull =
     (createTextCell (String (or_empty v)) False)\<lparr>rowIndex := r, colIndex := c\<rparr>"
  by (simp add: createDataCell_def Let_def)

lemma createDataCell_object:
  "createDataCell v r c (RObject spec) =
     \<lparr>rowIndex = r, colIndex = c,
      Template = (case c_template spec of None \<Rightarrow> TextCell | Some t \<Rightarrow> t),
      props = spread [(''text'', PStr (String (or_empty v))), (''nonEditable'', PBool False)] (c_props spec),
      rowSpan = c_rowSpan spec, colSpan = c_colSpan spec,
      isFocusable = c_isFocusable spec, isSelectable = c_isSelectable spec\<rparr>"
  by (simp add: createDataCell_def Let_def createTextCell_def)

lemma header_of_object:
  "f k 0 (int j + 1) = RObject spec \<Longrightarrow>
   \<exists>info. header_of (Some f) k j = Some info \<and> h_key info = k \<and>
          h_customCell info = RObject spec \<and> h_colSpan info = c_colSpan spec"
  by (simp add: header_of_def processHeaderInfo_def Let_def)

lemma header_of_custom_span:
  "header_of pol k j = Some info \<Longrightarrow> h_customCell info = RObject spec \<Longrightarrow> h_colSpan info = c_colSpan spec"
  by (auto simp: header_of_def processHeaderInfo_def Let_def split: option.splits policy_result.splits)

lemma filter_null_member:
  "info \<in> set (filter_null (headers_from pol j0 ks)) \<longleftrightarrow>
     (\<exists>j<length ks. header_of pol (ks ! j) (j0 + j) = Some info)"
proof (induction ks arbitrary: j0)
  case Nil show ?case by simp
next
  case (Cons k ks)
  have "(\<exists>j<length (k # ks). header_of pol ((k # ks) ! j) (j0 + j) = Some info) \<longleftrightarrow>
        header_of pol k j0 = Some info \<or> (\<exists>j<length ks. header_of pol (ks ! j) (Suc j0 + j) = Some info)"
    by (auto simp: less_Suc_eq_0_disj)
  with Cons [of "Suc j0"] show ?case by (auto split: option.splits)
qed

lemma infos_custom_span:
  "info \<in> set (filter_null (headers_from pol j0 ks)) \<Longrightarrow> h_customCell info = RObject spec \<Longrightarrow>
   h_colSpan info = c_colSpan spec"
  by (auto simp: filter_null_member dest: header_of_custom_span)

lemma starts_Suc:
  "Suc n < length is \<Longrightarrow> starts c is ! Suc n = starts c is ! n + span_or_1 (h_colSpan (is ! n))"
  by (simp add: starts_nth take_Suc_conv_app_nth)

lemma starts_0: "is \<noteq> [] \<Longrightarrow> starts c is ! 0 = c"
  by (cases "is") simp_all

lemma map_colIndex_cells: "map colIndex (headerCells (header_loop is)) = starts 1 is"
  by (rule nth_equalityI) (simp_all add: header_loop_cells)

lemma span_or_1_pos: "(\<forall>s. n = Some s \<longrightarrow> 0 \<le> s) \<Longrightarrow> 0 < span_or_1 n"
  by (cases n) (auto simp: span_or_1_def)

lemma data_index_bound:
  "i < length data \<Longrightarrow> n < length infos \<Longrightarrow>
   1 + length data + length infos + i * length infos + n < length (assemble data infos)"
proof -
  assume i: "i < length data" and n: "n < length infos"
  have "i * length infos + n < Suc i * length infos" using n by simp
  also have "\<dots> \<le> length data * length infos" using i by (intro mult_le_mono1) simp
  finally show ?thesis by (simp add: length_assemble)
qed

lemma spec_defaults_eq:
  "[(''text'', PStr (String (or_empty (get_field item k)))), (''nonEditable'', PBool False)]
     = spec_defaults item k"
  by (simp add: spec_defaults_def default_text)

lemma pass_returns:
  assumes "data \<noteq> []" and "RUndefined \<notin> set (policy_results pol data)"
  shows "resolve_headers data pol = (calls_of pol (getObjectKeys (hd data)), Inr (headerInfo_of data pol))"
    and "getCells data pol = (calls_of pol (getObjectKeys (hd data)), Inr (cells_of data pol))"
    and "cells_of data pol = assemble data (headerInfo_of data pol)"
    and "headerInfo_of data pol = filter_null (headers_from pol 0 (getObjectKeys (hd data)))"
  using assms by (simp_all add: headerInfo_of_def cells_of_def resolve_headers_Inr getCells_Inr)

lemma distinct_headerInfo_of:
  assumes "data \<noteq> []" and "distinct (map fst (hd data))"
    and "RUndefined \<notin> set (policy_results pol data)"
  shows "distinct (map h_key (headerInfo_of data pol))"
  unfolding pass_returns(4) [OF assms(1,3)]
  using assms(2) by (intro distinct_keys_filter_null distinct_getObjectKeys)

lemma data_cell_props:
  assumes "distinct (map h_key infos)" and "i < length data" and "n < length infos"
  shows "(let info = infos ! n;
              at = 1 + length data + length infos + i * length infos + n;
              c = assemble data infos ! at;
              defaults = spec_defaults (data ! i) (h_key info)
          in at < length (assemble data infos) \<and>
             rowIndex c = int i + 1 \<and>
             columnPositions (header_loop infos) (h_key info) = Some (colIndex c) \<and>
             colIndex c = colIndex (headerCells (header_loop infos) ! n) \<and>
             (h_customCell info = RNull \<longrightarrow> Template c = TextCell \<and> props c = defaults) \<and>
             (\<forall>spec. h_customCell info = RObject spec \<longrightarrow>
                Template c = (case c_template spec of None \<Rightarrow> TextCell | Some t \<Rightarrow> t) \<and>
                props c = spread defaults (c_props spec) \<and>
                (c_props spec = None \<longrightarrow> props c = defaults) \<and>
                (\<forall>ps. c_props spec = Some ps \<longrightarrow> distinct (map fst ps) \<longrightarrow>
                   (\<forall>k. map_of (props c) k =
                      (case map_of ps k of Some v \<Rightarrow> Some v | None \<Rightarrow> map_of defaults k)))))"
proof -
  have pos: "columnPositions (header_loop infos) (h_key (infos ! n)) = Some (starts 1 infos ! n)"
    using assms(1,3) by (rule header_loop_pos)
  have hc: "colIndex (headerCells (header_loop infos) ! n) = starts 1 infos ! n"
    using assms(3) by (rule header_loop_colIndex)
  show ?thesis
    unfolding Let_def assemble_nth_data [OF assms(2,3)]
    using data_index_bound [OF assms(2,3)] pos hc
    by (auto simp: createDataCell_null createDataCell_object createTextCell_def spec_defaults_eq
          spread_def map_of_fold_assign simp del: map_of.simps)
qed



subsection \<open>The example inputs evaluated\<close>

lemma keys_sample: "getObjectKeys (hd sample_rows) = [''name'', ''city'', ''age'']"
  by (simp add: sample_rows_def getObjectKeys_def)

lemma sample_facts:
  "sample_rows \<noteq> []" "distinct (map fst (hd sample_rows))" "length sample_rows = 2"
  "sample_rows ! 0 = [(''id'', JStr ''r1''), (''name'', JStr ''John''), (''city'', JStr ''Boston''), (''age'', JNum 28)]"
  "sample_rows ! 1 = [(''id'', JStr ''r2''), (''name'', JStr ''Jane''), (''age'', JNum 0)]"
  "sample_rows ! Suc 0 = [(''id'', JStr ''r2''), (''name'', JStr ''Jane''), (''age'', JNum 0)]"
  by (simp_all add: sample_rows_def)

lemma styled_results:
  "policy_results (Some styled_policy) sample_rows = [RString ''name'', RObject city_spec, RString ''age'']"
  by (simp add: policy_results_def keys_sample sample_facts) (simp add: styled_policy_def)

lemma styled_infos:
  "headerInfo_of sample_rows (Some styled_policy) =
     [\<lparr>h_key = ''name'', h_cell = Some (createHeaderCell ''name''), h_title = ''name'',
       h_customCell = RNull, h_colSpan = None\<rparr>,
      \<lparr>h_key = ''city'',
       h_cell = Some \<lparr>rowIndex = 0, colIndex = 2, Template = NonEditableCell,
                      props = [(''nonEditable'', PBool True), (''placeholder'', PStr ''?'')],
                      rowSpan = Some 1, colSpan = Some 2, isFocusable = Some False,
                      isSelectable = Some True\<rparr>,
       h_title = ''City'', h_customCell = RObject city_spec, h_colSpan = Some 2\<rparr>,
      \<lparr>h_key = ''age'', h_cell = Some (createHeaderCell ''age''), h_title = ''age'',
       h_customCell = RNull, h_colSpan = None\<rparr>]"
  by (simp add: headerInfo_of_def resolve_headers_def keys_sample processHeaderInfo_def styled_policy_def
        city_spec_def title_or_def Let_def)

lemma app_results:
  "policy_results (Some app_policy) sample_rows =
     [RString ''Name'', RObject (no_fields\<lparr>c_title := Some ''City'', c_colSpan := Some 2\<rparr>), RString ''age'']"
  by (simp add: policy_results_def keys_sample sample_facts) (simp add: app_policy_def)

subsection \<open>Further lemmas\<close>

lemma createDataCell_object_spans:
  "rowSpan (createDataCell v r c (RObject spec)) = c_rowSpan spec"
  "colSpan (createDataCell v r c (RObject spec)) = c_colSpan spec"
  "isFocusable (createDataCell v r c (RObject spec)) = c_isFocusable spec"
  "isSelectable (createDataCell v r c (RObject spec)) = c_isSelectable spec"
  by (simp_all add: createDataCell_object)

lemma results_from_nth:
  "j < length ks \<Longrightarrow> results_from f j0 ks ! j = f (ks ! j) 0 (int (j0 + j) + 1)"
proof (induction ks arbitrary: j j0)
  case Nil then show ?case by simp
next
  case (Cons k ks) then show ?case by (cases j) simp_all
qed

lemma length_results_from [simp]: "length (results_from f j0 ks) = length ks"
  by (induction ks arbitrary: j0) simp_all

lemma object_in_headerInfo:
  assumes "data \<noteq> []" and "RUndefined \<notin> set (policy_results (Some f) data)"
    and "j < length (getObjectKeys (hd data))"
    and "f (getObjectKeys (hd data) ! j) 0 (int j + 1) = RObject spec"
  shows "\<exists>n<length (headerInfo_of data (Some f)).
           h_key (headerInfo_of data (Some f) ! n) = getObjectKeys (hd data) ! j \<and>
           h_customCell (headerInfo_of data (Some f) ! n) = RObject spec"
proof -
  from header_of_object [of f "getObjectKeys (hd data) ! j" j spec, OF assms(4)] obtain info where
    info: "header_of (Some f) (getObjectKeys (hd data) ! j) j = Some info"
      "h_key info = getObjectKeys (hd data) ! j" "h_customCell info = RObject spec"
    by blast
  have "info \<in> set (headerInfo_of data (Some f))"
    unfolding pass_returns(4) [OF assms(1,2)] filter_null_member
    using assms(3) info(1) by auto
  then obtain n where "n < length (headerInfo_of data (Some f))" "headerInfo_of data (Some f) ! n = info"
    by (auto simp: in_set_conv_nth)
  with info(2,3) show ?thesis by auto
qed

lemma headers_from_append:
  "headers_from pol j0 (xs @ ys) = headers_from pol j0 xs @ headers_from pol (j0 + length xs) ys"
  by (induction xs arbitrary: j0) simp_all

lemma filter_null_append: "filter_null (xs @ ys) = filter_null xs @ filter_null ys"
  by (induction xs) (simp_all split: option.splits)

lemma header_of_cong:
  "g k 0 (int j + 1) = f k 0 (int j + 1) \<Longrightarrow> header_of (Some g) k j = header_of (Some f) k j"
  by (simp add: header_of_def processHeaderInfo_def Let_def)

lemma headers_from_cong:
  "\<forall>k \<in> set ks. \<forall>a b. g k a b = f k a b \<Longrightarrow>
   headers_from (Some g) j ks = headers_from (Some f) j ks"
proof (induction ks arbitrary: j)
  case Nil show ?case by simp
next
  case (Cons k ks)
  have "header_of (Some g) k j = header_of (Some f) k j"
    using Cons.prems by (intro header_of_cong) simp
  moreover have "headers_from (Some g) (Suc j) ks = headers_from (Some f) (Suc j) ks"
    using Cons.prems by (intro Cons.IH) simp
  ultimately show ?case by simp
qed

lemma starts_shift: "starts (c + w) is = map (\<lambda>p. p + w) (starts c is)"
proof (induction "is" arbitrary: c)
  case Nil show ?case by simp
next
  case (Cons a "is")
  have "starts (c + w + span_or_1 (h_colSpan a)) is = starts (c + span_or_1 (h_colSpan a) + w) is"
    by (simp only: add.assoc add.commute [of w])
  then show ?case by (simp add: Cons [of "c + span_or_1 (h_colSpan a)"])
qed

lemma distinct_nth_notin:
  assumes "distinct ks" and "j < length ks"
  shows "ks ! j \<notin> set (take j ks)" and "ks ! j \<notin> set (drop (Suc j) ks)"
proof -
  have "distinct (take j ks @ ks ! j # drop (Suc j) ks)"
    using assms by (simp add: id_take_nth_drop [symmetric])
  then show "ks ! j \<notin> set (take j ks)" and "ks ! j \<notin> set (drop (Suc j) ks)" by auto
qed

lemma header_loop_append:
  "header_loop (A @ C) = fold header_step C (header_loop A)"
  by (simp add: header_loop_def)

lemma currentColIndex_header_loop:
  "currentColIndex (header_loop A) = 1 + sum_list (map (\<lambda>i. span_or_1 (h_colSpan i)) A)"
  by (simp add: header_loop_def fold_header_step_cur)

lemma pos_append_left:
  "distinct (map h_key (A @ C)) \<Longrightarrow> info \<in> set A \<Longrightarrow>
   columnPositions (header_loop (A @ C)) (h_key info) = columnPositions (header_loop A) (h_key info)"
  unfolding header_loop_append by (rule fold_header_step_other) auto

lemma pos_append_right:
  "distinct (map h_key (A @ C)) \<Longrightarrow> m < length C \<Longrightarrow>
   columnPositions (header_loop (A @ C)) (h_key (C ! m))
     = Some (starts (1 + sum_list (map (\<lambda>i. span_or_1 (h_colSpan i)) A)) C ! m)"
  unfolding header_loop_append by (simp add: fold_header_step_pos currentColIndex_header_loop)

lemma header_loop_no_key:
  "k \<notin> h_key ` set A \<Longrightarrow> columnPositions (header_loop A) k = None"
  by (simp add: header_loop_def fold_header_step_other)

lemma hidden_results_defined:
  assumes "distinct ks" and "j < length ks"
    and "RUndefined \<notin> set (results_from f 0 ks)"
    and "g (ks ! j) 0 (int j + 1) = RNull"
    and "\<forall>k a b. k \<noteq> ks ! j \<longrightarrow> g k a b = f k a b"
  shows "RUndefined \<notin> set (results_from g 0 ks)"
proof
  assume "RUndefined \<in> set (results_from g 0 ks)"
  then obtain i where i: "i < length ks" "results_from g 0 ks ! i = RUndefined"
    by (auto simp: in_set_conv_nth)
  then have gi: "g (ks ! i) 0 (int i + 1) = RUndefined" by (simp add: results_from_nth)
  with assms(4) have "i \<noteq> j" by auto
  with assms(1,2) i(1) have "ks ! i \<noteq> ks ! j" by (simp add: nth_eq_iff_index_eq)
  with assms(5) gi have "f (ks ! i) 0 (int i + 1) = RUndefined" by simp
  then have "results_from f 0 ks ! i = RUndefined" using i(1) by (simp add: results_from_nth)
  moreover have "results_from f 0 ks ! i \<in> set (results_from f 0 ks)"
    using i(1) by (intro nth_mem) simp
  ultimately show False using assms(3) by simp
qed

lemma header_of_Some:
  "f k 0 (int j + 1) \<notin> {RNull, RUndefined} \<Longrightarrow> \<exists>info. header_of (Some f) k j = Some info"
  using header_of_None_iff [of f k j] by auto

lemma app_infos:
  "headerInfo_of sample_rows (Some app_policy) =
     [\<lparr>h_key = ''name'', h_cell = Some (createHeaderCell ''Name''), h_title = ''Name'',
       h_customCell = RNull, h_colSpan = None\<rparr>,
      \<lparr>h_key = ''city'',
       h_cell = Some \<lparr>rowIndex = 0, colIndex = 2, Template = NonEditableCell,
                      props = header_props ''City'',
                      rowSpan = None, colSpan = Some 2, isFocusable = None,
                      isSelectable = None\<rparr>,
       h_title = ''City'',
       h_customCell = RObject (no_fields\<lparr>c_title := Some ''City'', c_colSpan := Some 2\<rparr>),
       h_colSpan = Some 2\<rparr>,
      \<lparr>h_key = ''age'', h_cell = Some (createHeaderCell ''age''), h_title = ''age'',
       h_customCell = RNull, h_colSpan = None\<rparr>]"
  by (simp add: headerInfo_of_def resolve_headers_def keys_sample processHeaderInfo_def app_policy_def
        no_fields_def title_or_def Let_def)

lemma negative_results:
  "policy_results (Some negative_span_policy) sample_rows =
     [RObject (no_fields\<lparr>c_colSpan := Some (- 1)\<rparr>), RString ''city'', RString ''age'']"
  by (simp add: policy_results_def keys_sample sample_facts) (simp add: negative_span_policy_def)

lemma negative_infos:
  "headerInfo_of sample_rows (Some negative_span_policy) =
     [\<lparr>h_key = ''name'',
       h_cell = Some \<lparr>rowIndex = 0, colIndex = 1, Template = NonEditableCell,
                      props = header_props ''name'',
                      rowSpan = None, colSpan = Some (- 1), isFocusable = None,
                      isSelectable = None\<rparr>,
       h_title = ''name'',
       h_customCell = RObject (no_fields\<lparr>c_colSpan := Some (- 1)\<rparr>),
       h_colSpan = Some (- 1)\<rparr>,
      \<lparr>h_key = ''city'', h_cell = Some (createHeaderCell ''city''), h_title = ''city'',
       h_customCell = RNull, h_colSpan = None\<rparr>,
      \<lparr>h_key = ''age'', h_cell = Some (createHeaderCell ''age''), h_title = ''age'',
       h_customCell = RNull, h_colSpan = None\<rparr>]"
  by (simp add: headerInfo_of_def resolve_headers_def keys_sample processHeaderInfo_def
        negative_span_policy_def no_fields_def title_or_def Let_def)



lemma handler_free_header_props [simp]: "handler_free (header_props v)"
  by (simp add: handler_free_def header_props_def)

lemma handler_free_assign:
  "handler_free ps \<Longrightarrow> handler_free [kv] \<Longrightarrow> handler_free (assign kv ps)"
  by (induction kv ps rule: assign.induct) (auto simp: handler_free_def)

lemma handler_free_fold:
  "handler_free a \<Longrightarrow> handler_free bs \<Longrightarrow> handler_free (fold assign bs a)"
proof (induction bs arbitrary: a)
  case Nil then show ?case by simp
next
  case (Cons b bs)
  from Cons.prems(2) have b: "handler_free [b]" and bs: "handler_free bs"
    by (simp_all add: handler_free_def)
  show ?case using Cons.IH [OF handler_free_assign [OF Cons.prems(1) b] bs] by simp
qed

lemma handler_free_spread:
  "handler_free a \<Longrightarrow> (\<forall>ps. b = Some ps \<longrightarrow> handler_free ps) \<Longrightarrow> handler_free (spread a b)"
  by (cases b) (simp_all add: spread_def handler_free_fold)

lemma cell_handlers_free: "handler_free (props c) \<Longrightarrow> cell_handlers c = []"
proof -
  have "list_all (\<lambda>(k, v). case v of PHandler h \<Rightarrow> False | _ \<Rightarrow> True) ps \<Longrightarrow>
        concat (map (\<lambda>(k, v). case v of PHandler h \<Rightarrow> [h] | _ \<Rightarrow> []) ps) = []" for ps :: props
    by (induction ps) (auto split: pval.splits)
  then show "handler_free (props c) \<Longrightarrow> cell_handlers c = []"
    by (simp add: cell_handlers_def handler_free_def)
qed

lemma createDataCell_free:
  "(\<forall>ps. c_props (fields_of cc) = Some ps \<longrightarrow> handler_free ps) \<Longrightarrow>
   handler_free (props (createDataCell v r c cc))"
proof -
  assume a: "\<forall>ps. c_props (fields_of cc) = Some ps \<longrightarrow> handler_free ps"
  have base: "handler_free [(''text'', PStr t), (''nonEditable'', PBool False)]" for t
    by (simp add: handler_free_def)
  show ?thesis
    using a base by (simp add: createDataCell_def Let_def createTextCell_def handler_free_spread)
qed

lemma header_of_free:
  assumes "header_of pol k j = Some info"
    and "\<forall>f spec ps. pol = Some f \<longrightarrow> f k 0 (int j + 1) = RObject spec \<longrightarrow> c_props spec = Some ps
           \<longrightarrow> handler_free ps"
  shows "info_free info"
proof (cases pol)
  case None
  with assms(1) show ?thesis
    by (auto simp: header_of_def processHeaderInfo_def info_free_def header_cell_def
          createHeaderCell_def no_fields_def)
next
  case (Some f)
  show ?thesis
  proof (cases "f k 0 (int j + 1)")
    case (RObject spec)
    with assms Some show ?thesis
      by (auto simp: header_of_def processHeaderInfo_def Let_def info_free_def header_cell_def
            split: option.splits)
  qed (use assms(1) Some in \<open>auto simp: header_of_def processHeaderInfo_def Let_def info_free_def
         header_cell_def createHeaderCell_def no_fields_def\<close>)
qed

lemma headers_from_free:
  assumes "\<forall>f. pol = Some f \<longrightarrow> (\<forall>res \<in> set (results_from f j0 ks). \<forall>spec ps.
             res = RObject spec \<longrightarrow> c_props spec = Some ps \<longrightarrow> handler_free ps)"
  shows "\<forall>info \<in> set (filter_null (headers_from pol j0 ks)). info_free info"
  using assms
proof (induction ks arbitrary: j0)
  case Nil show ?case by simp
next
  case (Cons k ks)
  have rest: "\<forall>info \<in> set (filter_null (headers_from pol (Suc j0) ks)). info_free info"
    using Cons.prems by (intro Cons.IH) simp
  have first: "header_of pol k j0 = Some info \<Longrightarrow> info_free info" for info
    using Cons.prems by (elim header_of_free) simp
  show ?case using rest first by (auto split: option.splits)
qed

lemma assemble_free:
  assumes "\<forall>info \<in> set infos. info_free info"
  shows "\<forall>c \<in> set (assemble data infos). handler_free (props c)"
proof -
  have corner: "handler_free (props rowNumberHeaderCell)"
    by (simp add: rowNumberHeaderCell_def createHeaderCell_def)
  have nums: "\<forall>c \<in> set (rowNumberCells data). handler_free (props c)"
    by (auto simp: rowNumberCells_def createRowNumberCell_def)
  have heads: "\<forall>c \<in> set (headerCells (header_loop infos)). handler_free (props c)"
    using assms by (auto simp: header_loop_cells info_free_def dest!: set_zip_leftD)
  have cells: "\<forall>c \<in> set (dataCells data infos pos). handler_free (props c)" for pos
    using assms by (auto simp: dataCells_def info_free_def intro!: createDataCell_free)
  show ?thesis using corner nums heads cells by (auto simp: assemble_def Let_def)
qed

lemma edit_calls_free:
  "\<forall>c \<in> set (cells (grid r)). cell_handlers c = [] \<Longrightarrow> edit_calls r row col text = []"
  by (simp add: edit_calls_def)

subsection \<open>The output, cell by cell\<close>

lemma header_cell_nth:
  "n < length H \<Longrightarrow> headerCells (header_loop H) ! n = header_cell (H ! n) (starts 1 H ! n)"
  by (simp add: header_loop_cells)

lemma out_corner: "assemble data H ! 0 = rowNumberHeaderCell"
  by (simp add: assemble_def Let_def)

lemma out_row_number:
  "i < length data \<Longrightarrow>
   assemble data H ! (1 + i) =
     (createRowNumberCell (of_nat i + 1))\<lparr>rowIndex := int i + 1, colIndex := 0\<rparr>"
  by (simp add: assemble_def Let_def nth_append length_rowNumberCells rowNumberCells_def)

lemma out_low:
  "k \<le> length data \<Longrightarrow> assemble data H ! k = assemble data H' ! k"
  by (cases k) (simp_all add: assemble_def Let_def nth_append length_rowNumberCells)

lemma out_header:
  "n < length H \<Longrightarrow>
   assemble data H ! header_at (length data) n = header_cell (H ! n) (starts 1 H ! n)"
  unfolding header_at_def by (simp only: assemble_nth_header header_cell_nth)

lemma out_data:
  "distinct (map h_key H) \<Longrightarrow> i < length data \<Longrightarrow> n < length H \<Longrightarrow>
   assemble data H ! data_at (length data) (length H) i n =
     createDataCell (get_field (data ! i) (h_key (H ! n))) (int i + 1) (starts 1 H ! n)
       (h_customCell (H ! n))"
  unfolding data_at_def by (simp only: assemble_nth_data header_loop_pos option.sel)

lemma header_cell_move: "(header_cell info c)\<lparr>colIndex := c'\<rparr> = header_cell info c'"
  by (simp add: header_cell_def)

lemma createDataCell_move:
  "(createDataCell v r c cc)\<lparr>colIndex := c'\<rparr> = createDataCell v r c' cc"
  by (simp add: createDataCell_def Let_def)

lemma starts_append:
  "starts c (xs @ ys) = starts c xs @ starts (c + sum_list (map (\<lambda>i. span_or_1 (h_colSpan i)) xs)) ys"
  by (induction xs arbitrary: c) (simp_all add: add.assoc)

lemma starts_left: "n < length A \<Longrightarrow> starts c (A @ C) ! n = starts c A ! n"
  by (simp add: starts_append nth_append)

lemma starts_right:
  "starts c (A @ C) ! (length A + m)
     = starts (c + sum_list (map (\<lambda>i. span_or_1 (h_colSpan i)) A)) C ! m"
  by (simp add: starts_append nth_append)






lemma starts_after_removed:
  "m < length B \<Longrightarrow>
   starts c (A @ iF # B) ! (length A + 1 + m)
     = starts c (A @ B) ! (length A + m) + span_or_1 (h_colSpan iF)"
proof -
  assume m: "m < length B"
  let ?c0 = "c + sum_list (map (\<lambda>i. span_or_1 (h_colSpan i)) A)"
  have "starts c (A @ iF # B) ! (length A + (1 + m)) = starts ?c0 (iF # B) ! (1 + m)"
    by (rule starts_right)
  also have "\<dots> = starts (?c0 + span_or_1 (h_colSpan iF)) B ! m" by simp
  also have "\<dots> = starts ?c0 B ! m + span_or_1 (h_colSpan iF)"
    using m by (simp add: starts_shift)
  also have "starts ?c0 B ! m = starts c (A @ B) ! (length A + m)"
    by (rule starts_right [symmetric])
  finally show ?thesis by (simp add: add.assoc)
qed

lemma nth_after_removed: "(A @ iF # B) ! (length A + 1 + m) = B ! m" "(A @ B) ! (length A + m) = B ! m"
  by (simp_all add: nth_append)

lemma removed_header_left:
  assumes "n < length A"
  shows "assemble data (A @ B) ! header_at (length data) n
       = assemble data (A @ iF # B) ! header_at (length data) n"
proof -
  have 1: "n < length (A @ B)" and 2: "n < length (A @ iF # B)" using assms by simp_all
  show ?thesis
    unfolding out_header [OF 1] out_header [OF 2] using assms by (simp add: nth_append starts_left)
qed

lemma removed_header_right:
  assumes "m < length B"
  shows "assemble data (A @ B) ! header_at (length data) (length A + m)
       = (assemble data (A @ iF # B) ! header_at (length data) (length A + 1 + m))
           \<lparr>colIndex := colIndex (assemble data (A @ iF # B) ! header_at (length data) (length A + 1 + m))
                          - span_or_1 (h_colSpan iF)\<rparr>"
proof -
  have 1: "length A + m < length (A @ B)" and 2: "length A + 1 + m < length (A @ iF # B)"
    using assms by simp_all
  show ?thesis
    unfolding out_header [OF 1] out_header [OF 2] nth_after_removed
      starts_after_removed [OF assms] header_cell_move colIndex_header_cell
    by simp
qed

lemma removed_data_left:
  assumes "distinct (map h_key (A @ iF # B))" and "i < length data" and "n < length A"
  shows "assemble data (A @ B) ! data_at (length data) (length A + length B) i n
       = assemble data (A @ iF # B) ! data_at (length data) (length A + 1 + length B) i n"
proof -
  have d: "distinct (map h_key (A @ B))" using assms(1) by auto
  have 1: "n < length (A @ B)" and 2: "n < length (A @ iF # B)" using assms(3) by simp_all
  have l1: "length A + length B = length (A @ B)" and l2: "length A + 1 + length B = length (A @ iF # B)"
    by simp_all
  show ?thesis
    unfolding l1 l2 out_data [OF d assms(2) 1] out_data [OF assms(1,2) 2]
    using assms(3) by (simp add: nth_append starts_left)
qed

lemma removed_data_right:
  assumes "distinct (map h_key (A @ iF # B))" and "i < length data" and "m < length B"
  shows "assemble data (A @ B) ! data_at (length data) (length A + length B) i (length A + m)
       = (assemble data (A @ iF # B) ! data_at (length data) (length A + 1 + length B) i (length A + 1 + m))
           \<lparr>colIndex := colIndex (assemble data (A @ iF # B)
                             ! data_at (length data) (length A + 1 + length B) i (length A + 1 + m))
                          - span_or_1 (h_colSpan iF)\<rparr>"
proof -
  have d: "distinct (map h_key (A @ B))" using assms(1) by auto
  have 1: "length A + m < length (A @ B)" and 2: "length A + 1 + m < length (A @ iF # B)"
    using assms(3) by simp_all
  have l1: "length A + length B = length (A @ B)" and l2: "length A + 1 + length B = length (A @ iF # B)"
    by simp_all
  show ?thesis
    unfolding l1 l2 out_data [OF d assms(2) 1] out_data [OF assms(1,2) 2] nth_after_removed
      starts_after_removed [OF assms(3)] createDataCell_move createDataCell_index
    by simp
qed

lemma removed_own_cells:
  assumes "distinct (map h_key (A @ iF # B))" and "i < length data"
  shows "assemble data (A @ iF # B) ! header_at (length data) (length A)
       = header_cell iF (colIndex (assemble data (A @ iF # B) ! header_at (length data) (length A)))"
    and "assemble data (A @ iF # B) ! data_at (length data) (length A + 1 + length B) i (length A)
       = createDataCell (get_field (data ! i) (h_key iF)) (int i + 1)
           (colIndex (assemble data (A @ iF # B) ! header_at (length data) (length A)))
           (h_customCell iF)"
proof -
  have 2: "length A < length (A @ iF # B)" by simp
  have l2: "length A + 1 + length B = length (A @ iF # B)" by simp
  show "assemble data (A @ iF # B) ! header_at (length data) (length A)
       = header_cell iF (colIndex (assemble data (A @ iF # B) ! header_at (length data) (length A)))"
    unfolding out_header [OF 2] by simp
  show "assemble data (A @ iF # B) ! data_at (length data) (length A + 1 + length B) i (length A)
       = createDataCell (get_field (data ! i) (h_key iF)) (int i + 1)
           (colIndex (assemble data (A @ iF # B) ! header_at (length data) (length A)))
           (h_customCell iF)"
    unfolding l2 out_data [OF assms 2] out_header [OF 2] by simp
qed

lemma hide_city_infos:
  "headerInfo_of sample_rows (Some (hide ''city'' app_policy)) =
     [\<lparr>h_key = ''name'', h_cell = Some (createHeaderCell ''Name''), h_title = ''Name'',
       h_customCell = RNull, h_colSpan = None\<rparr>,
      \<lparr>h_key = ''age'', h_cell = Some (createHeaderCell ''age''), h_title = ''age'',
       h_customCell = RNull, h_colSpan = None\<rparr>]"
  by (simp add: headerInfo_of_def resolve_headers_def keys_sample processHeaderInfo_def app_policy_def
        hide_def Let_def)

lemma split_three:
  assumes "[x, y, z] = before @ info # after" and "P y" and "\<not> P x" and "\<not> P z" and "P info"
  shows "before = [x] \<and> info = y \<and> after = [z]"
  using assms by (auto simp: Cons_eq_append_conv append_eq_Cons_conv)


section \<open>Empty input\<close>

text \<open>
  C5. For an empty row sequence the cell list is exactly the empty list: no key is
  discovered, the header policy is not consulted, no cell is emitted, and the pass
  ends normally (\<open>Inr\<close>), not with an error.
\<close>

theorem getCells_empty: "getCells [] columnHeaderTitle = ([], Inr [])"
  by (simp add: getCells_def)

section \<open>Cell count\<close>



section \<open>Data cells\<close>




section \<open>Hidden columns\<close>

text \<open>
  C2, as amended. Let the header policy \<open>g\<close> return \<open>null\<close> for the field \<open>F\<close>, the
  \<open>j\<close>-th discovered key, and let \<open>f\<close> be a policy that shows \<open>F\<close> and agrees with
  \<open>g\<close> on every other field. Then under \<open>g\<close>
  \<^item> the decision for \<open>F\<close> is Hidden: \<open>processHeaderInfo\<close> returns \<open>null\<close>;
  \<^item> exactly one column is removed: the header information is that of \<open>f\<close> with the
    one entry of \<open>F\<close> taken out; the corner and the row-number cells are those of
    \<open>f\<close>; the header cell and the \<open>N\<close> data cells of \<open>F\<close> that the output of \<open>f\<close>
    holds are not in the output of \<open>g\<close>, whose \<open>1 + N + K' + N * K'\<close> cells are, in
    order, the remaining cells of \<open>f\<close>; and \<open>F\<close> has no column position;
  \<^item> the cells of every column before \<open>F\<close> are unchanged, and the header cell and
    the data cells of every column after \<open>F\<close> are those of \<open>f\<close> with the column index
    lowered by the span width \<open>F\<close> has under \<open>f\<close> (\<open>colSpan || 1\<close>, so 1 by default).
  Only \<open>null\<close> is the sentinel (line 146): a policy that returns nothing for the field
  does not hide it, see the counterexample.
\<close>

theorem hidden_column:
  assumes "data \<noteq> []"
    and "distinct (map fst (hd data))"
    and "RUndefined \<notin> set (policy_results (Some f) data)"
    and "j < length (getObjectKeys (hd data))"
    and "F = getObjectKeys (hd data) ! j"
    and "f F 0 (int j + 1) \<noteq> RNull"
    and "g F 0 (int j + 1) = RNull"
    and "\<forall>k a b. k \<noteq> F \<longrightarrow> g k a b = f k a b"
  shows "(let shown = headerInfo_of data (Some f);
              hidden = headerInfo_of data (Some g);
              cf = cells_of data (Some f);
              cg = cells_of data (Some g);
              N = length data
          in processHeaderInfo F j (Some g) = ([(F, 0, int j + 1)], Inr None) \<and>
             snd (getCells data (Some f)) = Inr cf \<and>
             snd (getCells data (Some g)) = Inr cg \<and>
             F \<notin> h_key ` set hidden \<and>
             columnPositions (header_loop hidden) F = None \<and>
             (\<exists>before info after.
                shown = before @ info # after \<and> h_key info = F \<and> hidden = before @ after \<and>
                (let a = length before;
                     b = length after;
                     K = a + 1 + b;
                     K' = a + b;
                     w = span_or_1 (h_colSpan info)
                 in length cf = 1 + N + K + N * K \<and>
                    length cg = 1 + N + K' + N * K' \<and>
                    (\<forall>k\<le>N. cg ! k = cf ! k) \<and>
                    cf ! header_at N a = header_cell info (colIndex (cf ! header_at N a)) \<and>
                    (\<forall>i<N. cf ! data_at N K i a
                       = createDataCell (get_field (data ! i) F) (int i + 1)
                           (colIndex (cf ! header_at N a)) (h_customCell info)) \<and>
                    (\<forall>n<a. cg ! header_at N n = cf ! header_at N n \<and>
                       (\<forall>i<N. cg ! data_at N K' i n = cf ! data_at N K i n)) \<and>
                    (\<forall>m<b.
                       cg ! header_at N (a + m)
                         = (cf ! header_at N (a + 1 + m))
                             \<lparr>colIndex := colIndex (cf ! header_at N (a + 1 + m)) - w\<rparr> \<and>
                       (\<forall>i<N. cg ! data_at N K' i (a + m)
                          = (cf ! data_at N K i (a + 1 + m))
                              \<lparr>colIndex := colIndex (cf ! data_at N K i (a + 1 + m)) - w\<rparr>)) \<and>
                    (\<forall>c \<in> set before.
                       columnPositions (header_loop hidden) (h_key c)
                         = columnPositions (header_loop shown) (h_key c)) \<and>
                    (\<forall>c \<in> set after. \<exists>p.
                       columnPositions (header_loop shown) (h_key c) = Some p \<and>
                       columnPositions (header_loop hidden) (h_key c) = Some (p - w)))))"
proof -
  let ?ks = "getObjectKeys (hd data)"
  let ?K1 = "take j ?ks" and ?K2 = "drop (Suc j) ?ks"
  have dk: "distinct ?ks" using assms(2) by (rule distinct_getObjectKeys)
  have split: "?ks = ?K1 @ F # ?K2" unfolding assms(5) using assms(4) by (rule id_take_nth_drop)
  have notin: "F \<notin> set ?K1" "F \<notin> set ?K2"
    using distinct_nth_notin [OF dk assms(4)] assms(5) by simp_all
  have rf: "RUndefined \<notin> set (results_from f 0 ?ks)"
    using assms(1,3) by (simp add: policy_results_def)
  have rg: "RUndefined \<notin> set (policy_results (Some g) data)"
    using hidden_results_defined [OF dk assms(4) rf] assms(1,5,7,8)
    by (simp add: policy_results_def)
  note retf = pass_returns [OF assms(1,3)]
  note retg = pass_returns [OF assms(1) rg]
  have "results_from f 0 ?ks ! j \<in> set (results_from f 0 ?ks)"
    using assms(4) by (intro nth_mem) simp
  then have "f F 0 (int j + 1) \<noteq> RUndefined"
    using rf assms(4,5) by (auto simp: results_from_nth)
  with assms(6) obtain iF where iF: "header_of (Some f) F j = Some iF"
    using header_of_Some [of f F j] by auto
  have kF: "h_key iF = F" using iF by (rule header_of_key)
  have gF: "header_of (Some g) F j = None"
    using assms(7) by (simp add: header_of_None_iff)
  define A where "A = filter_null (headers_from (Some f) 0 ?K1)"
  define B where "B = filter_null (headers_from (Some f) (Suc j) ?K2)"
  have lenK1: "min (length ?ks) j = j" using assms(4) by simp
  have Hf: "headerInfo_of data (Some f) = A @ iF # B"
    unfolding retf(4) by (subst split) (simp add: headers_from_append filter_null_append lenK1 iF A_def B_def)
  have cong1: "headers_from (Some g) 0 ?K1 = headers_from (Some f) 0 ?K1"
    and cong2: "headers_from (Some g) (Suc j) ?K2 = headers_from (Some f) (Suc j) ?K2"
    using notin assms(8) by (auto intro!: headers_from_cong)
  have Hg: "headerInfo_of data (Some g) = A @ B"
    unfolding retg(4)
    by (subst split) (simp add: headers_from_append filter_null_append lenK1 gF cong1 cong2 A_def B_def)
  have df: "distinct (map h_key (A @ iF # B))"
    using distinct_headerInfo_of [OF assms(1,2,3)] by (simp add: Hf)
  then have dg: "distinct (map h_key (A @ B))" by auto
  have keysA: "h_key ` set A \<subseteq> set ?K1" and keysB: "h_key ` set B \<subseteq> set ?K2"
    using keys_filter_null_subset [of "Some f" 0 ?K1] keys_filter_null_subset [of "Some f" "Suc j" ?K2]
    by (auto simp: A_def B_def)
  have Fnot: "F \<notin> h_key ` set (A @ B)" using keysA keysB notin by auto
  have hid: "processHeaderInfo F j (Some g) = ([(F, 0, int j + 1)], Inr None)"
    using assms(7) by (simp add: processHeaderInfo_def)
  have retcf: "snd (getCells data (Some f)) = Inr (cells_of data (Some f))"
    and retcg: "snd (getCells data (Some g)) = Inr (cells_of data (Some g))"
    by (simp_all add: retf(2) retg(2))
  have cf: "cells_of data (Some f) = assemble data (A @ iF # B)"
    and cg: "cells_of data (Some g) = assemble data (A @ B)"
    by (simp_all add: retf(3) retg(3) Hf Hg)
  have posA: "\<forall>c \<in> set A. columnPositions (header_loop (A @ B)) (h_key c)
      = columnPositions (header_loop (A @ iF # B)) (h_key c)"
    using df dg by (simp add: pos_append_left)
  have posB: "\<forall>c \<in> set B. \<exists>p.
      columnPositions (header_loop (A @ iF # B)) (h_key c) = Some p \<and>
      columnPositions (header_loop (A @ B)) (h_key c) = Some (p - span_or_1 (h_colSpan iF))"
  proof
    fix c assume "c \<in> set B"
    then obtain m where m: "m < length B" "B ! m = c" by (auto simp: in_set_conv_nth)
    let ?c0 = "1 + sum_list (map (\<lambda>i. span_or_1 (h_colSpan i)) A)"
    have "columnPositions (header_loop (A @ iF # B)) (h_key ((iF # B) ! Suc m))
        = Some (starts ?c0 (iF # B) ! Suc m)"
      using df m(1) by (intro pos_append_right) simp_all
    then have 1: "columnPositions (header_loop (A @ iF # B)) (h_key c)
        = Some (starts ?c0 B ! m + span_or_1 (h_colSpan iF))"
      using m by (simp add: starts_shift)
    have 2: "columnPositions (header_loop (A @ B)) (h_key c) = Some (starts ?c0 B ! m)"
      using pos_append_right [OF dg m(1)] m(2) by simp
    from 1 2 show "\<exists>p. columnPositions (header_loop (A @ iF # B)) (h_key c) = Some p \<and>
      columnPositions (header_loop (A @ B)) (h_key c) = Some (p - span_or_1 (h_colSpan iF))"
      by simp
  qed
  have lenf: "length (assemble data (A @ iF # B))
      = 1 + length data + (length A + 1 + length B) + length data * (length A + 1 + length B)"
    and leng: "length (assemble data (A @ B))
      = 1 + length data + (length A + length B) + length data * (length A + length B)"
    by (simp_all add: length_assemble)
  have low: "\<forall>k\<le>length data. assemble data (A @ B) ! k = assemble data (A @ iF # B) ! k"
    by (intro allI impI out_low)
  have own: "assemble data (A @ iF # B) ! header_at (length data) (length A)
       = header_cell iF (colIndex (assemble data (A @ iF # B) ! header_at (length data) (length A)))"
    by (simp add: assemble_def Let_def header_at_def nth_append length_rowNumberCells
          length_header_loop_cells header_cell_nth header_cell_move)
  have owndata: "\<forall>i<length data.
      assemble data (A @ iF # B) ! data_at (length data) (length A + 1 + length B) i (length A)
       = createDataCell (get_field (data ! i) F) (int i + 1)
           (colIndex (assemble data (A @ iF # B) ! header_at (length data) (length A)))
           (h_customCell iF)"
    using removed_own_cells(2) [OF df] by (simp add: kF)
  have left: "\<forall>n<length A.
      assemble data (A @ B) ! header_at (length data) n
        = assemble data (A @ iF # B) ! header_at (length data) n \<and>
      (\<forall>i<length data.
         assemble data (A @ B) ! data_at (length data) (length A + length B) i n
           = assemble data (A @ iF # B) ! data_at (length data) (length A + 1 + length B) i n)"
    by (intro allI impI conjI removed_header_left removed_data_left [OF df])
  have right: "\<forall>m<length B.
      assemble data (A @ B) ! header_at (length data) (length A + m)
        = (assemble data (A @ iF # B) ! header_at (length data) (length A + 1 + m))
            \<lparr>colIndex := colIndex (assemble data (A @ iF # B) ! header_at (length data) (length A + 1 + m))
                          - span_or_1 (h_colSpan iF)\<rparr> \<and>
      (\<forall>i<length data.
         assemble data (A @ B) ! data_at (length data) (length A + length B) i (length A + m)
           = (assemble data (A @ iF # B)
                ! data_at (length data) (length A + 1 + length B) i (length A + 1 + m))
               \<lparr>colIndex := colIndex (assemble data (A @ iF # B)
                             ! data_at (length data) (length A + 1 + length B) i (length A + 1 + m))
                          - span_or_1 (h_colSpan iF)\<rparr>)"
    by (intro allI impI conjI removed_header_right removed_data_right [OF df])
  show ?thesis
    unfolding Let_def Hf Hg cf cg
    apply (intro conjI hid retcf [unfolded cf] retcg [unfolded cg] Fnot
        header_loop_no_key [OF Fnot])
    apply (rule exI [of _ A], rule exI [of _ iF], rule exI [of _ B])
    apply (intro conjI refl kF lenf leng low own owndata left right posA posB)
    done
qed

text \<open>
  Hiding \<open>city\<close>, which the policy of \<open>App.tsx\<close> shows with \<open>colSpan = 2\<close>: 9 cells
  instead of 12, and the header cell and the second row's data cell of \<open>age\<close> are those
  of the full table moved from column 4 to column 2.
\<close>

theorem hidden_column_witness:
  "sample_rows \<noteq> [] \<and> distinct (map fst (hd sample_rows)) \<and>
   RUndefined \<notin> set (policy_results (Some app_policy) sample_rows) \<and>
   1 < length (getObjectKeys (hd sample_rows)) \<and>
   ''city'' = getObjectKeys (hd sample_rows) ! 1 \<and>
   app_policy ''city'' 0 2 \<noteq> RNull \<and>
   hide ''city'' app_policy ''city'' 0 2 = RNull \<and>
   processHeaderInfo ''city'' 1 (Some (hide ''city'' app_policy)) = ([(''city'', 0, 2)], Inr None) \<and>
   snd (getCells sample_rows (Some (hide ''city'' app_policy)))
     = Inr (cells_of sample_rows (Some (hide ''city'' app_policy))) \<and>
   length (cells_of sample_rows (Some app_policy)) = 12 \<and>
   length (cells_of sample_rows (Some (hide ''city'' app_policy))) = 9 \<and>
   columnPositions (header_loop (headerInfo_of sample_rows (Some (hide ''city'' app_policy)))) ''city''
     = None \<and>
   colIndex (cells_of sample_rows (Some app_policy) ! 5) = 4 \<and>
   cells_of sample_rows (Some (hide ''city'' app_policy)) ! 4
     = (cells_of sample_rows (Some app_policy) ! 5)\<lparr>colIndex := 2\<rparr> \<and>
   colIndex (cells_of sample_rows (Some app_policy) ! 11) = 4 \<and>
   cells_of sample_rows (Some (hide ''city'' app_policy)) ! 8
     = (cells_of sample_rows (Some app_policy) ! 11)\<lparr>colIndex := 2\<rparr>"
proof -
  let ?f = "Some app_policy" and ?g = "Some (hide ''city'' app_policy)"
  have h3: "RUndefined \<notin> set (policy_results ?f sample_rows)"
    by (simp add: app_results)
  have h4: "1 < length (getObjectKeys (hd sample_rows))"
    and h5: "''city'' = getObjectKeys (hd sample_rows) ! 1"
    by (simp_all add: keys_sample)
  have h6: "app_policy ''city'' 0 (int 1 + 1) \<noteq> RNull"
    and h7: "hide ''city'' app_policy ''city'' 0 (int 1 + 1) = RNull"
    and h8: "\<forall>k a b. k \<noteq> ''city'' \<longrightarrow> hide ''city'' app_policy k a b = app_policy k a b"
    by (simp_all add: app_policy_def hide_def)
  note inst = hidden_column [OF sample_facts(1,2) h3 h4 h5 h6 h7 h8, unfolded Let_def]
  have hid: "processHeaderInfo ''city'' 1 ?g = ([(''city'', 0, 2)], Inr None)"
    using inst [THEN conjunct1] by simp
  have ret: "snd (getCells sample_rows ?g) = Inr (cells_of sample_rows ?g)"
    using inst by blast
  have gone: "columnPositions (header_loop (headerInfo_of sample_rows ?g)) ''city'' = None"
    using inst by blast
  from inst obtain before info after where
    sh: "headerInfo_of sample_rows ?f = before @ info # after" and k: "h_key info = ''city''" and
    lens: "length (cells_of sample_rows ?f)
             = 1 + length sample_rows + (length before + 1 + length after)
                 + length sample_rows * (length before + 1 + length after)"
          "length (cells_of sample_rows ?g)
             = 1 + length sample_rows + (length before + length after)
                 + length sample_rows * (length before + length after)" and
    right: "\<forall>m<length after.
       cells_of sample_rows ?g ! header_at (length sample_rows) (length before + m)
         = (cells_of sample_rows ?f ! header_at (length sample_rows) (length before + 1 + m))
             \<lparr>colIndex := colIndex (cells_of sample_rows ?f
                               ! header_at (length sample_rows) (length before + 1 + m))
                            - span_or_1 (h_colSpan info)\<rparr> \<and>
       (\<forall>i<length sample_rows.
          cells_of sample_rows ?g
            ! data_at (length sample_rows) (length before + length after) i (length before + m)
          = (cells_of sample_rows ?f
               ! data_at (length sample_rows) (length before + 1 + length after) i
                   (length before + 1 + m))
              \<lparr>colIndex := colIndex (cells_of sample_rows ?f
                   ! data_at (length sample_rows) (length before + 1 + length after) i
                       (length before + 1 + m))
                 - span_or_1 (h_colSpan info)\<rparr>)"
    by blast
  have parts: "before = [\<lparr>h_key = ''name'', h_cell = Some (createHeaderCell ''Name''), h_title = ''Name'',
       h_customCell = RNull, h_colSpan = None\<rparr>] \<and>
     info = \<lparr>h_key = ''city'',
       h_cell = Some \<lparr>rowIndex = 0, colIndex = 2, Template = NonEditableCell,
                      props = header_props ''City'',
                      rowSpan = None, colSpan = Some 2, isFocusable = None,
                      isSelectable = None\<rparr>,
       h_title = ''City'',
       h_customCell = RObject (no_fields\<lparr>c_title := Some ''City'', c_colSpan := Some 2\<rparr>),
       h_colSpan = Some 2\<rparr> \<and>
     after = [\<lparr>h_key = ''age'', h_cell = Some (createHeaderCell ''age''), h_title = ''age'',
       h_customCell = RNull, h_colSpan = None\<rparr>]"
    by (rule split_three [where P = "\<lambda>i. h_key i = ''city''", OF sh [unfolded app_infos]])
       (simp_all add: k)
  have la: "length before = 1" "length after = 1" "span_or_1 (h_colSpan info) = 2"
    using parts by (simp_all add: span_or_1_def)
  have l12: "length (cells_of sample_rows ?f) = 12" and l9: "length (cells_of sample_rows ?g) = 9"
    using lens by (simp_all add: la sample_facts)
  have m0: "0 < length after" and r1: "1 < length sample_rows"
    by (simp_all add: la sample_facts)
  note r = right [rule_format, OF m0]
  have e4: "header_at (length sample_rows) (length before + 0) = 4"
    and e5: "header_at (length sample_rows) (length before + 1 + 0) = 5"
    and e8: "data_at (length sample_rows) (length before + length after) 1 (length before + 0) = 8"
    and e11: "data_at (length sample_rows) (length before + 1 + length after) 1 (length before + 1 + 0) = 11"
    by (simp_all add: la sample_facts header_at_def data_at_def)
  have rh: "cells_of sample_rows ?g ! 4
      = (cells_of sample_rows ?f ! 5)\<lparr>colIndex := colIndex (cells_of sample_rows ?f ! 5) - 2\<rparr>"
    using r [THEN conjunct1] unfolding e4 e5 la(3) .
  have rd: "cells_of sample_rows ?g ! 8
      = (cells_of sample_rows ?f ! 11)\<lparr>colIndex := colIndex (cells_of sample_rows ?f ! 11) - 2\<rparr>"
    using r [THEN conjunct2, rule_format, OF r1] unfolding e8 e11 la(3) .
  note retf = pass_returns [OF sample_facts(1) h3]
  have d: "distinct (map h_key (headerInfo_of sample_rows ?f))" by (simp add: app_infos)
  have n2: "2 < length (headerInfo_of sample_rows ?f)" by (simp add: app_infos)
  have j5: "header_at (length sample_rows) 2 = 5"
    and j11: "data_at (length sample_rows) (length (headerInfo_of sample_rows ?f)) 1 2 = 11"
    by (simp_all add: header_at_def data_at_def sample_facts app_infos)
  note oh = out_header [OF n2, of sample_rows, folded retf(3), unfolded j5]
  note od = out_data [OF d r1 n2, folded retf(3), unfolded j11]
  have c5: "colIndex (cells_of sample_rows ?f ! 5) = 4"
    unfolding oh by (simp add: app_infos span_or_1_def)
  have c11: "colIndex (cells_of sample_rows ?f ! 11) = 4"
    unfolding od by (simp add: app_infos span_or_1_def)
  have h6': "app_policy ''city'' 0 2 \<noteq> RNull"
    and h7': "hide ''city'' app_policy ''city'' 0 2 = RNull"
    by (simp_all add: app_policy_def hide_def)
  have rh': "cells_of sample_rows ?g ! 4 = (cells_of sample_rows ?f ! 5)\<lparr>colIndex := 2\<rparr>"
    and rd': "cells_of sample_rows ?g ! 8 = (cells_of sample_rows ?f ! 11)\<lparr>colIndex := 2\<rparr>"
    using rh rd by (simp_all add: c5 c11)
  show ?thesis
    by (intro conjI sample_facts(1,2) h3 h4 h5 h6' h7' hid ret l12 l9 gone c5 c11 rh' rd')
qed

text \<open>
  A policy that returns \<open>undefined\<close> for \<open>city\<close> (the omitted return value): the field
  is not hidden; line 157 throws a \<open>TypeError\<close> when that field is reached, and the pass
  yields no cell list.
\<close>

theorem hidden_column_counterexample:
  "omit ''city'' app_policy ''city'' 0 2 = RUndefined \<and>
   processHeaderInfo ''city'' 1 (Some (omit ''city'' app_policy)) = ([(''city'', 0, 2)], Inl TypeError) \<and>
   getCells sample_rows (Some (omit ''city'' app_policy))
     = ([(''name'', 0, 1), (''city'', 0, 2)], Inl TypeError)"
  by (simp add: getCells_def resolve_headers_def keys_sample sample_facts processHeaderInfo_def
        omit_def app_policy_def Let_def)

section \<open>Column plan\<close>

text \<open>
  C3, as amended. In every pass that ends normally the header cells of the non-hidden
  columns, in order, are the output cells at list positions \<open>1 + N + n\<close>, and their
  column indices, which are the entries of \<open>columnPositions\<close>, satisfy: the first is 1;
  each next index is the previous index plus the previous column's span width
  \<open>colSpan || 1\<close>; in particular a Custom spec with \<open>colSpan = 2\<close> puts the next column
  2 further, not 1. The indices strictly increase when no column has a negative
  \<open>colSpan\<close>. (The claim states the increase for every pass; the code adds whatever
  number \<open>colSpan\<close> holds, see the counterexample.)
\<close>

theorem column_plan:
  assumes "data \<noteq> []"
    and "distinct (map fst (hd data))"
    and "RUndefined \<notin> set (policy_results columnHeaderTitle data)"
  shows "(let headerInfo = headerInfo_of data columnHeaderTitle;
              cells = cells_of data columnHeaderTitle;
              s = header_loop headerInfo;
              hs = headerCells s
          in snd (getCells data columnHeaderTitle) = Inr cells \<and>
             length hs = length headerInfo \<and>
             (\<forall>n<length headerInfo.
                cells ! (1 + length data + n) = hs ! n \<and>
                columnPositions s (h_key (headerInfo ! n)) = Some (colIndex (hs ! n))) \<and>
             (headerInfo \<noteq> [] \<longrightarrow> colIndex (hs ! 0) = 1) \<and>
             (\<forall>n. Suc n < length headerInfo \<longrightarrow>
                colIndex (hs ! Suc n) = colIndex (hs ! n) + span_or_1 (h_colSpan (headerInfo ! n))) \<and>
             (\<forall>n spec. Suc n < length headerInfo \<longrightarrow>
                h_customCell (headerInfo ! n) = RObject spec \<longrightarrow> c_colSpan spec = Some 2 \<longrightarrow>
                colIndex (hs ! Suc n) = colIndex (hs ! n) + 2) \<and>
             ((\<forall>info \<in> set headerInfo. \<forall>w. h_colSpan info = Some w \<longrightarrow> 0 \<le> w) \<longrightarrow>
                sorted_wrt (<) (map colIndex hs)))"
proof -
  let ?H = "headerInfo_of data columnHeaderTitle"
  note ret = pass_returns [OF assms(1,3)]
  have d: "distinct (map h_key ?H)" using assms by (rule distinct_headerInfo_of)
  have b: "snd (getCells data columnHeaderTitle) = Inr (cells_of data columnHeaderTitle)"
    by (simp add: ret(2))
  have len: "length (headerCells (header_loop ?H)) = length ?H"
    by (rule length_header_loop_cells)
  have at: "\<forall>n<length ?H.
      cells_of data columnHeaderTitle ! (1 + length data + n) = headerCells (header_loop ?H) ! n \<and>
      columnPositions (header_loop ?H) (h_key (?H ! n)) = Some (colIndex (headerCells (header_loop ?H) ! n))"
  proof (intro allI impI conjI)
    fix n assume n: "n < length ?H"
    show "cells_of data columnHeaderTitle ! (1 + length data + n) = headerCells (header_loop ?H) ! n"
      unfolding ret(3) using n by (rule assemble_nth_header)
    show "columnPositions (header_loop ?H) (h_key (?H ! n)) = Some (colIndex (headerCells (header_loop ?H) ! n))"
      using d n by (simp add: header_loop_pos header_loop_colIndex)
  qed
  have first: "?H \<noteq> [] \<longrightarrow> colIndex (headerCells (header_loop ?H) ! 0) = 1"
    by (simp add: header_loop_colIndex starts_0)
  have nxt: "\<forall>n. Suc n < length ?H \<longrightarrow>
      colIndex (headerCells (header_loop ?H) ! Suc n) =
        colIndex (headerCells (header_loop ?H) ! n) + span_or_1 (h_colSpan (?H ! n))"
    by (simp add: header_loop_colIndex starts_Suc)
  have two: "\<forall>n spec. Suc n < length ?H \<longrightarrow> h_customCell (?H ! n) = RObject spec \<longrightarrow>
      c_colSpan spec = Some 2 \<longrightarrow>
      colIndex (headerCells (header_loop ?H) ! Suc n) = colIndex (headerCells (header_loop ?H) ! n) + 2"
  proof (intro allI impI)
    fix n spec
    assume n: "Suc n < length ?H" and c: "h_customCell (?H ! n) = RObject spec"
      and w: "c_colSpan spec = Some 2"
    have "?H ! n \<in> set (filter_null (headers_from columnHeaderTitle 0 (getObjectKeys (hd data))))"
      using n by (simp flip: ret(4))
    then have "h_colSpan (?H ! n) = Some 2"
      using c w by (simp add: infos_custom_span)
    with nxt n show "colIndex (headerCells (header_loop ?H) ! Suc n) =
        colIndex (headerCells (header_loop ?H) ! n) + 2"
      by (simp add: span_or_1_def)
  qed
  have inc: "(\<forall>info \<in> set ?H. \<forall>w. h_colSpan info = Some w \<longrightarrow> 0 \<le> w) \<longrightarrow>
      sorted_wrt (<) (map colIndex (headerCells (header_loop ?H)))"
    unfolding map_colIndex_cells by (auto intro!: sorted_starts span_or_1_pos)
  show ?thesis unfolding Let_def using b len at first nxt two inc by (intro conjI)
qed

text \<open>The policy of \<open>App.tsx\<close>: the columns are 1, 2 and, after the span of 2, 4.\<close>

theorem column_plan_witness:
  "sample_rows \<noteq> [] \<and> distinct (map fst (hd sample_rows)) \<and>
   RUndefined \<notin> set (policy_results (Some app_policy) sample_rows) \<and>
   map h_colSpan (headerInfo_of sample_rows (Some app_policy)) = [None, Some 2, None] \<and>
   map colIndex (headerCells (header_loop (headerInfo_of sample_rows (Some app_policy)))) = [1, 2, 4] \<and>
   sorted_wrt (<) (map colIndex (headerCells (header_loop (headerInfo_of sample_rows (Some app_policy)))))"
proof -
  let ?H = "headerInfo_of sample_rows (Some app_policy)"
  have h3: "RUndefined \<notin> set (policy_results (Some app_policy) sample_rows)"
    by (simp add: app_results)
  have h4: "\<forall>info \<in> set ?H. \<forall>w. h_colSpan info = Some w \<longrightarrow> 0 \<le> w"
    by (simp add: app_infos)
  note inst = column_plan [OF sample_facts(1,2) h3, unfolded Let_def]
  have inc: "sorted_wrt (<) (map colIndex (headerCells (header_loop ?H)))"
    using inst h4 by blast
  have cols: "map colIndex (headerCells (header_loop ?H)) = [1, 2, 4]"
    by (simp add: app_infos header_loop_def header_step_def header_cell_def span_or_1_def)
  have spans: "map h_colSpan ?H = [None, Some 2, None]" by (simp add: app_infos)
  show ?thesis using sample_facts(1,2) h3 spans inc cols by (intro conjI)
qed

text \<open>
  A spec with \<open>colSpan = -1\<close> for the first column: line 286 adds \<open>-1\<close>, the second
  header cell is at column 0 (the row-number column) and the third at column 1 again.
  The indices do not increase.
\<close>

theorem column_plan_counterexample:
  "snd (getCells sample_rows (Some negative_span_policy))
     = Inr (cells_of sample_rows (Some negative_span_policy)) \<and>
   map colIndex (take 3 (drop 3 (cells_of sample_rows (Some negative_span_policy)))) = [1, 0, 1] \<and>
   map colIndex (headerCells (header_loop (headerInfo_of sample_rows (Some negative_span_policy))))
     = [1, 0, 1] \<and>
   \<not> sorted_wrt (<)
       (map colIndex (headerCells (header_loop (headerInfo_of sample_rows (Some negative_span_policy)))))"
proof -
  let ?H = "headerInfo_of sample_rows (Some negative_span_policy)"
  have h3: "RUndefined \<notin> set (policy_results (Some negative_span_policy) sample_rows)"
    by (simp add: negative_results)
  note ret = pass_returns [OF sample_facts(1) h3]
  have cols: "map colIndex (headerCells (header_loop ?H)) = [1, 0, 1]"
    by (simp add: negative_infos header_loop_def header_step_def header_cell_def span_or_1_def)
  have len: "length (headerCells (header_loop ?H)) = 3" by (simp add: length_header_loop_cells negative_infos)
  have "take 3 (drop 3 (cells_of sample_rows (Some negative_span_policy))) = headerCells (header_loop ?H)"
    unfolding ret(3) by (simp add: assemble_def Let_def length_rowNumberCells sample_facts len)
  with cols have out: "map colIndex (take 3 (drop 3 (cells_of sample_rows (Some negative_span_policy)))) = [1, 0, 1]"
    by simp
  have a: "snd (getCells sample_rows (Some negative_span_policy)) = Inr (cells_of sample_rows (Some negative_span_policy))"
    by (simp add: ret(2))
  show ?thesis using a out cols by simp
qed

section \<open>Invocations of the header policy\<close>



section \<open>Span and focus fields on data cells\<close>

text \<open>
  C10. When the policy returns a structured spec for a column, the column's header
  information carries that spec, and every data cell of the column, in every row, has
  the spec's \<open>rowSpan\<close>, \<open>colSpan\<close>, \<open>isFocusable\<close> and \<open>isSelectable\<close> (lines 200-203),
  as the header cell has.
\<close>

theorem custom_fields_on_data_cells:
  assumes "data \<noteq> []"
    and "RUndefined \<notin> set (policy_results (Some f) data)"
  shows "(let headerInfo = headerInfo_of data (Some f);
              cells = cells_of data (Some f);
              allKeys = getObjectKeys (hd data)
          in snd (getCells data (Some f)) = Inr cells \<and>
             (\<forall>j<length allKeys. \<forall>spec. f (allKeys ! j) 0 (int j + 1) = RObject spec \<longrightarrow>
                (\<exists>n<length headerInfo.
                   h_key (headerInfo ! n) = allKeys ! j \<and>
                   h_customCell (headerInfo ! n) = RObject spec)) \<and>
             (\<forall>n<length headerInfo. \<forall>spec. h_customCell (headerInfo ! n) = RObject spec \<longrightarrow>
                (\<forall>i<length data.
                   (let c = cells ! (1 + length data + length headerInfo + i * length headerInfo + n)
                    in rowIndex c = int i + 1 \<and>
                       rowSpan c = c_rowSpan spec \<and> colSpan c = c_colSpan spec \<and>
                       isFocusable c = c_isFocusable spec \<and>
                       isSelectable c = c_isSelectable spec))))"
proof -
  note ret = pass_returns [OF assms]
  have b: "snd (getCells data (Some f)) = Inr (cells_of data (Some f))"
    by (simp add: ret(2))
  have link: "\<forall>j<length (getObjectKeys (hd data)). \<forall>spec.
      f (getObjectKeys (hd data) ! j) 0 (int j + 1) = RObject spec \<longrightarrow>
      (\<exists>n<length (headerInfo_of data (Some f)).
         h_key (headerInfo_of data (Some f) ! n) = getObjectKeys (hd data) ! j \<and>
         h_customCell (headerInfo_of data (Some f) ! n) = RObject spec)"
    using object_in_headerInfo [OF assms] by blast
  have cellsP: "\<forall>n<length (headerInfo_of data (Some f)). \<forall>spec.
      h_customCell (headerInfo_of data (Some f) ! n) = RObject spec \<longrightarrow>
      (\<forall>i<length data.
         rowIndex (cells_of data (Some f) ! (1 + length data + length (headerInfo_of data (Some f))
              + i * length (headerInfo_of data (Some f)) + n)) = int i + 1 \<and>
         rowSpan (cells_of data (Some f) ! (1 + length data + length (headerInfo_of data (Some f))
              + i * length (headerInfo_of data (Some f)) + n)) = c_rowSpan spec \<and>
         colSpan (cells_of data (Some f) ! (1 + length data + length (headerInfo_of data (Some f))
              + i * length (headerInfo_of data (Some f)) + n)) = c_colSpan spec \<and>
         isFocusable (cells_of data (Some f) ! (1 + length data + length (headerInfo_of data (Some f))
              + i * length (headerInfo_of data (Some f)) + n)) = c_isFocusable spec \<and>
         isSelectable (cells_of data (Some f) ! (1 + length data + length (headerInfo_of data (Some f))
              + i * length (headerInfo_of data (Some f)) + n)) = c_isSelectable spec)"
    unfolding ret(3)
    by (intro allI impI) (simp only: assemble_nth_data createDataCell_object_spans createDataCell_index simp_thms)
  show ?thesis unfolding Let_def using b link cellsP by (intro conjI)
qed

text \<open>The \<open>city\<close> cells of both sample rows (list positions 7 and 10).\<close>

theorem custom_fields_on_data_cells_witness:
  "sample_rows \<noteq> [] \<and>
   RUndefined \<notin> set (policy_results (Some styled_policy) sample_rows) \<and>
   styled_policy ''city'' 0 2 = RObject city_spec \<and>
   (let cells = cells_of sample_rows (Some styled_policy)
    in snd (getCells sample_rows (Some styled_policy)) = Inr cells \<and>
       rowIndex (cells ! 7) = 1 \<and> colSpan (cells ! 7) = Some 2 \<and> rowSpan (cells ! 7) = Some 1 \<and>
       isFocusable (cells ! 7) = Some False \<and> isSelectable (cells ! 7) = Some True \<and>
       rowIndex (cells ! 10) = 2 \<and> colSpan (cells ! 10) = Some 2 \<and> rowSpan (cells ! 10) = Some 1 \<and>
       isFocusable (cells ! 10) = Some False \<and> isSelectable (cells ! 10) = Some True)"
proof -
  let ?H = "headerInfo_of sample_rows (Some styled_policy)"
  have h3: "RUndefined \<notin> set (policy_results (Some styled_policy) sample_rows)"
    by (simp add: styled_results)
  note inst = custom_fields_on_data_cells [OF sample_facts(1) h3, unfolded Let_def]
  have n: "1 < length ?H" and c: "h_customCell (?H ! 1) = RObject city_spec"
    and l0: "0 < length sample_rows" and l1: "1 < length sample_rows"
    by (simp_all add: styled_infos sample_facts)
  have i7: "1 + length sample_rows + length ?H + 0 * length ?H + 1 = 7"
    and i10: "1 + length sample_rows + length ?H + 1 * length ?H + 1 = 10"
    by (simp_all add: sample_facts styled_infos)
  note r0 = inst [THEN conjunct2, THEN conjunct2, rule_format, OF n c l0, unfolded i7]
  note r1 = inst [THEN conjunct2, THEN conjunct2, rule_format, OF n c l1, unfolded i10]
  have p: "styled_policy ''city'' 0 2 = RObject city_spec" by (simp add: styled_policy_def)
  show ?thesis unfolding Let_def
    using sample_facts(1) h3 p inst [THEN conjunct1] r0 r1
    by (simp add: city_spec_def)
qed

section \<open>Policy results of an unrecognized shape\<close>

text \<open>
  C6, as amended. When the policy returns a number or a boolean for a field, header
  resolution does not throw and the column is the Default column titled by the field
  name: the header information has the field name as title, the loop step it causes
  (header cell, position, advance by 1) and every data cell are those of the
  information produced when no policy is supplied. The claim includes \<open>undefined\<close>
  among the unrecognized shapes; for it the code throws, see the counterexample.
\<close>

theorem primitive_result_is_default:
  assumes "f key 0 (int colIdx + 1) \<in> range RNumber \<union> range RBool"
  shows "\<exists>info dflt.
      processHeaderInfo key colIdx (Some f) = ([(key, 0, int colIdx + 1)], Inr (Some info)) \<and>
      processHeaderInfo key colIdx None = ([], Inr (Some dflt)) \<and>
      h_key info = key \<and> h_title info = key \<and> h_title dflt = key \<and>
      header_step info = header_step dflt \<and>
      (\<forall>v row col. createDataCell v row col (h_customCell info)
                     = createDataCell v row col (h_customCell dflt))"
proof -
  define info where "info = \<lparr>h_key = key, h_cell = Some \<lparr>rowIndex = 0, colIndex = int colIdx + 1,
       Template = NonEditableCell, props = header_props key, rowSpan = None, colSpan = None,
       isFocusable = None, isSelectable = None\<rparr>, h_title = key,
       h_customCell = f key 0 (int colIdx + 1), h_colSpan = None\<rparr>"
  define dflt where "dflt = \<lparr>h_key = key, h_cell = Some (createHeaderCell key), h_title = key,
       h_customCell = RNull, h_colSpan = None\<rparr>"
  have 1: "processHeaderInfo key colIdx (Some f) = ([(key, 0, int colIdx + 1)], Inr (Some info))"
    using assms by (auto simp: processHeaderInfo_def Let_def info_def no_fields_def title_or_def)
  have 2: "processHeaderInfo key colIdx None = ([], Inr (Some dflt))"
    by (simp add: processHeaderInfo_def dflt_def)
  have 3: "header_step info = header_step dflt"
    by (rule ext) (simp add: header_step_def header_cell_def info_def dflt_def createHeaderCell_def)
  have 4: "\<forall>v row col. createDataCell v row col (h_customCell info)
                     = createDataCell v row col (h_customCell dflt)"
    using assms
    by (auto simp: info_def dflt_def createDataCell_def Let_def no_fields_def spread_def createTextCell_def)
  have 5: "h_key info = key" "h_title info = key" "h_title dflt = key"
    by (simp_all add: info_def dflt_def)
  from 1 2 3 4 5 show ?thesis by blast
qed

text \<open>A policy that answers 42.\<close>

theorem primitive_result_is_default_witness:
  "number_policy ''age'' 0 (int 2 + 1) \<in> range RNumber \<union> range RBool \<and>
   (\<exists>info dflt.
      processHeaderInfo ''age'' 2 (Some number_policy) = ([(''age'', 0, int 2 + 1)], Inr (Some info)) \<and>
      processHeaderInfo ''age'' 2 None = ([], Inr (Some dflt)) \<and>
      h_key info = ''age'' \<and> h_title info = ''age'' \<and> h_title dflt = ''age'' \<and>
      header_step info = header_step dflt \<and>
      (\<forall>v row col. createDataCell v row col (h_customCell info)
                     = createDataCell v row col (h_customCell dflt)))"
proof -
  have h: "number_policy ''age'' 0 (int 2 + 1) \<in> range RNumber \<union> range RBool"
    by (simp add: number_policy_def)
  from primitive_result_is_default [of number_policy "''age''" 2, OF h] h show ?thesis
    by (intro conjI)
qed

text \<open>
  A policy that returns \<open>undefined\<close> (a function without a \<open>return\<close>): line 146 does
  not match, line 148 does not match, line 157 reads \<open>result.template\<close> and throws a
  \<open>TypeError\<close>, which ends \<open>getCells\<close> after the first invocation.
\<close>

theorem unrecognized_shape_counterexample:
  "processHeaderInfo ''name'' 0 (Some undefined_policy) = ([(''name'', 0, 1)], Inl TypeError) \<and>
   getCells sample_rows (Some undefined_policy) = ([(''name'', 0, 1)], Inl TypeError)"
  by (simp add: getCells_def resolve_headers_def keys_sample sample_facts processHeaderInfo_def
        undefined_policy_def)

section \<open>Layout options\<close>

text \<open>
  C7, as amended. When the pass ends normally, the rendered element carries each layout
  option as given, and when it is omitted the default of lines 217-222:
  \<open>height = "400px"\<close>, \<open>width = "100%"\<close>, \<open>stickyTopRows = 1\<close>, \<open>stickyLeftColumns = 1\<close>,
  and 0 for \<open>stickyBottomRows\<close> and \<open>stickyRightColumns\<close>. (The claim gives 0 as the
  default of \<open>stickyLeftColumns\<close>.)
\<close>

theorem layout_options:
  assumes "RUndefined \<notin> set (policy_results (p_columnHeaderTitle p) storeFields)"
  shows "\<exists>calls r.
      Spreadsheet p storeFields = (calls, Inr r) \<and>
      height r = (case p_height p of None \<Rightarrow> ''400px'' | Some h \<Rightarrow> h) \<and>
      width r = (case p_width p of None \<Rightarrow> ''100%'' | Some w \<Rightarrow> w) \<and>
      stickyTopRows (grid r) = (case p_stickyTopRows p of None \<Rightarrow> 1 | Some n \<Rightarrow> n) \<and>
      stickyBottomRows (grid r) = (case p_stickyBottomRows p of None \<Rightarrow> 0 | Some n \<Rightarrow> n) \<and>
      stickyLeftColumns (grid r) = (case p_stickyLeftColumns p of None \<Rightarrow> 1 | Some n \<Rightarrow> n) \<and>
      stickyRightColumns (grid r) = (case p_stickyRightColumns p of None \<Rightarrow> 0 | Some n \<Rightarrow> n)"
proof (cases "storeFields = []")
  case True
  then show ?thesis by (simp add: Spreadsheet_def getCells_def)
next
  case False
  from pass_returns(2) [OF False assms] show ?thesis by (simp add: Spreadsheet_def)
qed

text \<open>No option given.\<close>

theorem layout_options_witness:
  "RUndefined \<notin> set (policy_results (p_columnHeaderTitle no_options) sample_rows) \<and>
   (\<exists>calls r.
      Spreadsheet no_options sample_rows = (calls, Inr r) \<and>
      height r = ''400px'' \<and> width r = ''100%'' \<and> stickyTopRows (grid r) = 1 \<and>
      stickyBottomRows (grid r) = 0 \<and> stickyLeftColumns (grid r) = 1 \<and>
      stickyRightColumns (grid r) = 0)"
proof -
  have h: "RUndefined \<notin> set (policy_results (p_columnHeaderTitle no_options) sample_rows)"
    by (simp add: no_options_def policy_results_def)
  from layout_options [OF h] h show ?thesis by (simp add: no_options_def)
qed

text \<open>With \<open>stickyLeftColumns\<close> omitted the grid receives 1, not 0.\<close>

theorem layout_options_counterexample:
  "p_stickyLeftColumns no_options = None \<and>
   snd (Spreadsheet no_options sample_rows) =
     Inr \<lparr>height = ''400px'', width = ''100%'',
          grid = \<lparr>cells = cells_of sample_rows None, stickyTopRows = 1, stickyBottomRows = 0,
                  stickyLeftColumns = 1, stickyRightColumns = 0\<rparr>\<rparr> \<and>
   stickyLeftColumns \<lparr>cells = cells_of sample_rows None, stickyTopRows = 1, stickyBottomRows = 0,
                  stickyLeftColumns = 1, stickyRightColumns = 0\<rparr> \<noteq> 0"
proof -
  have h: "RUndefined \<notin> set (policy_results None sample_rows)" by (simp add: policy_results_def)
  from pass_returns(2) [OF sample_facts(1) h] show ?thesis
    by (simp add: Spreadsheet_def no_options_def)
qed

section \<open>Edits\<close>

text \<open>
  C8, as amended. The component hands the renderer no change handler: the \<open>ReactGrid\<close>
  element receives the cells and the four sticky options only, and no cell the
  component builds carries a callback in its props unless the header policy put one
  into a Custom spec's props. So when the policy's props hold no callback, no edit the
  renderer signals, on any cell, reaches a row-store call: neither \<open>update\<close> nor
  \<open>append\<close> nor \<open>remove\<close> is issued. (\<open>append\<close>, \<open>remove\<close> and \<open>update\<close> are
  obtained at line 234 and never used.)
\<close>

theorem edits_issue_no_store_call:
  assumes "RUndefined \<notin> set (policy_results (p_columnHeaderTitle p) storeFields)"
    and "\<forall>res \<in> set (policy_results (p_columnHeaderTitle p) storeFields). \<forall>spec ps.
           res = RObject spec \<longrightarrow> c_props spec = Some ps \<longrightarrow> handler_free ps"
  shows "\<exists>calls r.
      Spreadsheet p storeFields = (calls, Inr r) \<and>
      (\<forall>c \<in> set (cells (grid r)). cell_handlers c = []) \<and>
      (\<forall>row col text. edit_calls r row col text = [])"
proof (cases "storeFields = []")
  case True
  then show ?thesis by (simp add: Spreadsheet_def getCells_def edit_calls_def)
next
  case False
  let ?pol = "p_columnHeaderTitle p"
  note ret = pass_returns [OF False assms(1)]
  have "\<forall>info \<in> set (headerInfo_of storeFields ?pol). info_free info"
    unfolding ret(4) using assms(2) False
    by (intro headers_from_free) (simp add: policy_results_def)
  then have free: "\<forall>c \<in> set (cells_of storeFields ?pol). cell_handlers c = []"
    unfolding ret(3) using assemble_free [of "headerInfo_of storeFields ?pol" storeFields]
    by (auto intro: cell_handlers_free)
  obtain calls r where r: "Spreadsheet p storeFields = (calls, Inr r)"
    "cells (grid r) = cells_of storeFields ?pol"
    using ret(2) by (simp add: Spreadsheet_def)
  from r free have "\<forall>c \<in> set (cells (grid r)). cell_handlers c = []" by simp
  with r(1) show ?thesis using edit_calls_free by blast
qed

text \<open>A policy with a Custom spec whose props hold no callback.\<close>

theorem edits_issue_no_store_call_witness:
  "RUndefined \<notin> set (policy_results (p_columnHeaderTitle (no_options\<lparr>p_columnHeaderTitle := Some styled_policy\<rparr>)) sample_rows) \<and>
   c_props city_spec = Some [(''nonEditable'', PBool True), (''placeholder'', PStr ''?'')] \<and>
   (\<exists>calls r.
      Spreadsheet (no_options\<lparr>p_columnHeaderTitle := Some styled_policy\<rparr>) sample_rows = (calls, Inr r) \<and>
      edit_calls r 2 2 ''Paris'' = [])"
proof -
  let ?p = "no_options\<lparr>p_columnHeaderTitle := Some styled_policy\<rparr>"
  have h1: "RUndefined \<notin> set (policy_results (p_columnHeaderTitle ?p) sample_rows)"
    by (simp add: styled_results)
  have h2: "\<forall>res \<in> set (policy_results (p_columnHeaderTitle ?p) sample_rows).
      \<forall>spec ps. res = RObject spec \<longrightarrow> c_props spec = Some ps \<longrightarrow> handler_free ps"
    by (auto simp: styled_results city_spec_def handler_free_def)
  have h3: "c_props city_spec = Some [(''nonEditable'', PBool True), (''placeholder'', PStr ''?'')]"
    by (simp add: city_spec_def)
  from edits_issue_no_store_call [OF h1 h2] h1 h3 show ?thesis by blast
qed

text \<open>
  No policy: the cell of the second row at column 1 is an editable text cell showing
  \<open>Jane\<close>; its props are the text and the flag, and an edit to \<open>Janet\<close> issues no call
  at all, so not the one \<open>update\<close> call the claim asks for.
\<close>

theorem edit_propagation_counterexample:
  "snd (Spreadsheet no_options sample_rows) =
     Inr \<lparr>height = ''400px'', width = ''100%'',
          grid = \<lparr>cells = cells_of sample_rows None, stickyTopRows = 1, stickyBottomRows = 0,
                  stickyLeftColumns = 1, stickyRightColumns = 0\<rparr>\<rparr> \<and>
   rowIndex (cells_of sample_rows None ! 9) = 2 \<and> colIndex (cells_of sample_rows None ! 9) = 1 \<and>
   props (cells_of sample_rows None ! 9) = [(''text'', PStr ''Jane''), (''nonEditable'', PBool False)] \<and>
   edit_calls \<lparr>height = ''400px'', width = ''100%'',
          grid = \<lparr>cells = cells_of sample_rows None, stickyTopRows = 1, stickyBottomRows = 0,
                  stickyLeftColumns = 1, stickyRightColumns = 0\<rparr>\<rparr> 2 1 ''Janet'' = []"
proof -
  have h: "RUndefined \<notin> set (policy_results None sample_rows)" by (simp add: policy_results_def)
  note ret = pass_returns [OF sample_facts(1) h]
  have infos: "headerInfo_of sample_rows None =
     [\<lparr>h_key = ''name'', h_cell = Some (createHeaderCell ''name''), h_title = ''name'',
       h_customCell = RNull, h_colSpan = None\<rparr>,
      \<lparr>h_key = ''city'', h_cell = Some (createHeaderCell ''city''), h_title = ''city'',
       h_customCell = RNull, h_colSpan = None\<rparr>,
      \<lparr>h_key = ''age'', h_cell = Some (createHeaderCell ''age''), h_title = ''age'',
       h_customCell = RNull, h_colSpan = None\<rparr>]"
    by (simp add: headerInfo_of_def resolve_headers_def keys_sample processHeaderInfo_def)
  have a: "snd (Spreadsheet no_options sample_rows) =
     Inr \<lparr>height = ''400px'', width = ''100%'',
          grid = \<lparr>cells = cells_of sample_rows None, stickyTopRows = 1, stickyBottomRows = 0,
                  stickyLeftColumns = 1, stickyRightColumns = 0\<rparr>\<rparr>"
    using ret(2) by (simp add: Spreadsheet_def no_options_def)
  have d: "distinct (map h_key (headerInfo_of sample_rows None))" by (simp add: infos)
  have l1: "1 < length sample_rows" and l0: "0 < length (headerInfo_of sample_rows None)"
    by (simp_all add: sample_facts infos)
  have i9: "1 + length sample_rows + length (headerInfo_of sample_rows None)
              + 1 * length (headerInfo_of sample_rows None) + 0 = 9"
    by (simp add: sample_facts infos)
  note c9 = data_cell_props [OF d l1 l0, unfolded Let_def i9, folded ret(3)]
  have b: "rowIndex (cells_of sample_rows None ! 9) = 2 \<and> colIndex (cells_of sample_rows None ! 9) = 1 \<and>
      props (cells_of sample_rows None ! 9) = [(''text'', PStr ''Jane''), (''nonEditable'', PBool False)]"
    using c9
    by (simp add: infos sample_facts spec_defaults_def spec_text_def
          header_loop_def header_step_def header_cell_def span_or_1_def)
  have "\<forall>info \<in> set (headerInfo_of sample_rows None). info_free info"
    unfolding ret(4) by (intro headers_from_free) simp
  then have "\<forall>c \<in> set (cells_of sample_rows None). cell_handlers c = []"
    unfolding ret(3) using assemble_free [of "headerInfo_of sample_rows None" sample_rows]
    by (auto intro: cell_handlers_free)
  then have c: "edit_calls \<lparr>height = ''400px'', width = ''100%'',
          grid = \<lparr>cells = cells_of sample_rows None, stickyTopRows = 1, stickyBottomRows = 0,
                  stickyLeftColumns = 1, stickyRightColumns = 0\<rparr>\<rparr> 2 1 ''Janet'' = []"
    by (intro edit_calls_free) simp
  from a b c show ?thesis by (intro conjI) simp_all
qed

end
